theory Spec2Isabelle
  imports Complex_Main "HOL-Library.Word"
begin

unbundle bit_operations_syntax

section \<open>Numbers of the C program\<close>

subsection \<open>Doubles\<close>

text \<open>
  A C \<^verbatim>\<open>double\<close> is modelled as either the not-a-number value or a finite value
  carried by an exact real. Arithmetic on finite values is exact: rounding, overflow to an
  infinity and signed zeros are outside this model. Every operation with a NaN operand
  gives NaN, and every ordered comparison with a NaN operand is false, as in C. A quotient
  by zero is an infinity (or NaN) in C; the model has no infinity and gives NaN there.
\<close>

datatype double = NaN | Fin real

instantiation double :: "{plus, minus, uminus, times, inverse, ord}"
begin

definition plus_double :: "double \<Rightarrow> double \<Rightarrow> double" where
  "plus_double x y = (case (x, y) of (Fin a, Fin b) \<Rightarrow> Fin (a + b) | _ \<Rightarrow> NaN)"

definition minus_double :: "double \<Rightarrow> double \<Rightarrow> double" where
  "minus_double x y = (case (x, y) of (Fin a, Fin b) \<Rightarrow> Fin (a - b) | _ \<Rightarrow> NaN)"

definition uminus_double :: "double \<Rightarrow> double" where
  "uminus_double x = (case x of Fin a \<Rightarrow> Fin (- a) | NaN \<Rightarrow> NaN)"

definition times_double :: "double \<Rightarrow> double \<Rightarrow> double" where
  "times_double x y = (case (x, y) of (Fin a, Fin b) \<Rightarrow> Fin (a * b) | _ \<Rightarrow> NaN)"

definition divide_double :: "double \<Rightarrow> double \<Rightarrow> double" where
  "divide_double x y =
     (case (x, y) of (Fin a, Fin b) \<Rightarrow> (if b = 0 then NaN else Fin (a / b)) | _ \<Rightarrow> NaN)"

definition inverse_double :: "double \<Rightarrow> double" where
  "inverse_double x = (case x of Fin b \<Rightarrow> (if b = 0 then NaN else Fin (1 / b)) | NaN \<Rightarrow> NaN)"

definition less_double :: "double \<Rightarrow> double \<Rightarrow> bool" where
  "less_double x y = (case (x, y) of (Fin a, Fin b) \<Rightarrow> a < b | _ \<Rightarrow> False)"

definition less_eq_double :: "double \<Rightarrow> double \<Rightarrow> bool" where
  "less_eq_double x y = (case (x, y) of (Fin a, Fin b) \<Rightarrow> a \<le> b | _ \<Rightarrow> False)"

instance ..

end

text \<open>C's \<^verbatim>\<open>x != y\<close> on doubles: true as soon as one operand is NaN.\<close>

definition dneq :: "double \<Rightarrow> double \<Rightarrow> bool" where
  "dneq x y = (case (x, y) of (Fin a, Fin b) \<Rightarrow> a \<noteq> b | _ \<Rightarrow> True)"

definition isnan :: "double \<Rightarrow> bool" where
  "isnan x = (case x of NaN \<Rightarrow> True | Fin a \<Rightarrow> False)"

definition fabs :: "double \<Rightarrow> double" where
  "fabs x = (case x of NaN \<Rightarrow> NaN | Fin a \<Rightarrow> Fin \<bar>a\<bar>)"

text \<open>
  The macros of libavutil, \<^verbatim>\<open>FFMAX(a,b) ((a) > (b) ? (a) : (b))\<close> and
  \<^verbatim>\<open>FFMIN(a,b) ((a) > (b) ? (b) : (a))\<close>, on doubles.
\<close>

definition FFMAX :: "double \<Rightarrow> double \<Rightarrow> double" where
  "FFMAX a b = (if b < a then a else b)"

definition FFMIN :: "double \<Rightarrow> double \<Rightarrow> double" where
  "FFMIN a b = (if b < a then b else a)"

lemma double_arith [simp]:
  "Fin a + Fin b = Fin (a + b)" "NaN + y = NaN" "x + NaN = NaN"
  "Fin a - Fin b = Fin (a - b)" "NaN - y = NaN" "x - NaN = NaN"
  "Fin a * Fin b = Fin (a * b)" "NaN * y = NaN" "x * NaN = NaN"
  by (simp_all add: plus_double_def minus_double_def times_double_def split: double.splits)

lemma double_uminus [simp]: "- Fin a = Fin (- a)" "- NaN = NaN"
  by (simp_all add: uminus_double_def)

lemma double_divide [simp]:
  "Fin a / Fin b = (if b = 0 then NaN else Fin (a / b))" "NaN / y = NaN" "x / NaN = NaN"
  by (simp_all add: divide_double_def split: double.splits)

lemma double_less [simp]:
  "Fin a < Fin b \<longleftrightarrow> a < b" "\<not> NaN < y" "\<not> x < NaN"
  "Fin a \<le> Fin b \<longleftrightarrow> a \<le> b" "\<not> NaN \<le> y" "\<not> x \<le> NaN"
  by (simp_all add: less_double_def less_eq_double_def split: double.splits)

lemma dneq_simps [simp]:
  "dneq (Fin a) (Fin b) \<longleftrightarrow> a \<noteq> b" "dneq NaN y" "dneq x NaN"
  by (simp_all add: dneq_def split: double.splits)

lemma isnan_simps [simp]: "isnan NaN" "\<not> isnan (Fin a)"
  by (simp_all add: isnan_def)

lemma isnan_iff: "isnan x \<longleftrightarrow> x = NaN"
  by (cases x) simp_all

lemma fabs_simps [simp]: "fabs NaN = NaN" "fabs (Fin a) = Fin \<bar>a\<bar>"
  by (simp_all add: fabs_def)

subsection \<open>Signed integers\<close>

text \<open>
  A C \<^verbatim>\<open>int\<close> is 32 bits and an \<^verbatim>\<open>int64_t\<close> 64 bits. Signed overflow is undefined
  behaviour in C: an operation of the model that would leave the range has no result
  (\<open>None\<close>), and nothing is claimed about what the program does then.
\<close>

definition INT_MAX :: int where
  "INT_MAX = 2147483647"

definition INT_MIN :: int where
  "INT_MIN = - 2147483648"

definition INT64_MAX :: int where
  "INT64_MAX = 9223372036854775807"

definition INT64_MIN :: int where
  "INT64_MIN = - 9223372036854775808"

definition c_int :: "int \<Rightarrow> int option" where
  "c_int x = (if INT_MIN \<le> x \<and> x \<le> INT_MAX then Some x else None)"

definition c_int64 :: "int \<Rightarrow> int option" where
  "c_int64 x = (if INT64_MIN \<le> x \<and> x \<le> INT64_MAX then Some x else None)"

section \<open>clock.c\<close>

text \<open>
  The clock borrows a pointer to the serial of a packet queue (or, for the external clock,
  to its own serial field). The pointer is a reference of type \<open>'r\<close>, and the functions
  that dereference it take the memory \<open>mem\<close>, which gives the integer a reference
  points to. \<^verbatim>\<open>av_gettime_relative()\<close> is the environment's monotonic clock in
  microseconds: each call of it in the source is an argument of the model.
\<close>

record 'r ff_clock =
  pts :: double
  pts_drift :: double
  last_updated :: double
  speed :: double
  serial :: int
  paused :: int
  queue_serial :: 'r

definition seconds :: "int \<Rightarrow> double" where
  \<comment> \<open>\<^verbatim>\<open>(double)av_gettime_relative() / 1000000.0\<close>\<close>
  "seconds us = Fin (real_of_int us) / Fin 1000000"

definition ff_clock_get :: "('r \<Rightarrow> int) \<Rightarrow> 'r ff_clock \<Rightarrow> int \<Rightarrow> double" where
  "ff_clock_get mem clock now =
     (if mem (queue_serial clock) \<noteq> ff_clock.serial clock then NaN
      else if ff_clock.paused clock \<noteq> 0 then ff_clock.pts clock
      else let time = seconds now
           in pts_drift clock + time - (time - last_updated clock) * (Fin 1 - speed clock))"

definition ff_clock_set_at :: "'r ff_clock \<Rightarrow> double \<Rightarrow> int \<Rightarrow> double \<Rightarrow> 'r ff_clock" where
  "ff_clock_set_at clock pts' serial' time =
     clock\<lparr>ff_clock.pts := pts', last_updated := time, pts_drift := pts' - time,
           ff_clock.serial := serial'\<rparr>"

definition ff_clock_set :: "'r ff_clock \<Rightarrow> double \<Rightarrow> int \<Rightarrow> int \<Rightarrow> 'r ff_clock" where
  "ff_clock_set clock pts' serial' now = ff_clock_set_at clock pts' serial' (seconds now)"

text \<open>
  \<^verbatim>\<open>ff_clock_init\<close> writes every field of the struct it is given; \<open>clock\<close> is the
  memory it starts from.
\<close>

definition ff_clock_init :: "'r ff_clock \<Rightarrow> 'r \<Rightarrow> int \<Rightarrow> 'r ff_clock" where
  "ff_clock_init clock queue_serial' now =
     ff_clock_set (clock\<lparr>speed := Fin 1, ff_clock.paused := 0, queue_serial := queue_serial'\<rparr>)
       NaN (- 1) now"

text \<open>
  \<^verbatim>\<open>ff_clock_set(clock, ff_clock_get(clock), clock->serial)\<close> reads the time twice:
  \<open>t_get\<close> inside \<^verbatim>\<open>ff_clock_get\<close>, then \<open>t_set\<close> inside \<^verbatim>\<open>ff_clock_set\<close>.
  The serial is stored back unchanged, so the memory \<open>mem\<close> is the same after the call
  also when \<open>queue_serial\<close> points at the clock's own serial.
\<close>

definition ff_clock_set_speed ::
  "('r \<Rightarrow> int) \<Rightarrow> 'r ff_clock \<Rightarrow> double \<Rightarrow> int \<Rightarrow> int \<Rightarrow> 'r ff_clock" where
  "ff_clock_set_speed mem clock speed' t_get t_set =
     (ff_clock_set clock (ff_clock_get mem clock t_get) (ff_clock.serial clock) t_set)
       \<lparr>speed := speed'\<rparr>"

definition ff_clock_sync_to_slave ::
  "('r \<Rightarrow> int) \<Rightarrow> 'r ff_clock \<Rightarrow> 'r ff_clock \<Rightarrow> double \<Rightarrow> int \<Rightarrow> int \<Rightarrow> int \<Rightarrow> 'r ff_clock"
  where
  "ff_clock_sync_to_slave mem clock slave no_sync_threshold t_clock t_slave t_set =
     (let clock_val = ff_clock_get mem clock t_clock;
          slave_clock = ff_clock_get mem slave t_slave
      in if \<not> isnan slave_clock \<and>
            (isnan clock_val \<or> no_sync_threshold < fabs (clock_val - slave_clock))
         then ff_clock_set clock slave_clock (ff_clock.serial slave) t_set
         else clock)"

section \<open>Properties of the clock\<close>

lemma seconds_Fin: "seconds us = Fin (real_of_int us / 1000000)"
  by (simp add: seconds_def)

lemma ff_clock_set_speed_serial:
  "ff_clock.serial (ff_clock_set_speed mem clock s t1 t2) = ff_clock.serial clock"
  by (simp add: ff_clock_set_speed_def ff_clock_set_def ff_clock_set_at_def)

lemma ff_clock_set_speed_queue_serial:
  "queue_serial (ff_clock_set_speed mem clock s t1 t2) = queue_serial clock"
  by (simp add: ff_clock_set_speed_def ff_clock_set_def ff_clock_set_at_def)

lemma ff_clock_get_set_at:
  "ff_clock_get mem (ff_clock_set_at clock p s (Fin t)) now =
     (if mem (queue_serial clock) \<noteq> s then NaN
      else if ff_clock.paused clock \<noteq> 0 then p
      else p - Fin t + seconds now - (seconds now - Fin t) * (Fin 1 - speed clock))"
  by (simp add: ff_clock_get_def ff_clock_set_at_def Let_def)

text \<open>
  Claim C2, as the code has it. \<^verbatim>\<open>ff_clock_get\<close> returns NaN when the stored serial
  differs from the live \<^verbatim>\<open>*queue_serial\<close>; when the serials agree it returns the stored
  pts if the clock is paused and the projection
  \<open>pts_drift + t - (t - last_updated) * (1 - speed)\<close> otherwise. A clock fresh from
  \<^verbatim>\<open>ff_clock_init\<close> reads NaN. For a clock with a finite speed last written by
  \<^verbatim>\<open>ff_clock_set_at\<close> at a finite time, the value read is NaN exactly when the serial
  written differs from the live one or the pts written is NaN: a clock that was set, to a
  NaN pts, reads NaN as well.
\<close>

theorem ff_clock_get_cases:
  "ff_clock_get mem clock now =
     (if mem (queue_serial clock) \<noteq> ff_clock.serial clock then NaN
      else if ff_clock.paused clock \<noteq> 0 then ff_clock.pts clock
      else pts_drift clock + seconds now
           - (seconds now - last_updated clock) * (Fin 1 - speed clock))
   \<and> isnan (ff_clock_get mem (ff_clock_init clock r t0) now)
   \<and> (isnan (ff_clock_get mem (ff_clock_set_at (clock\<lparr>speed := Fin v\<rparr>) p s (Fin t)) now)
        \<longleftrightarrow> mem (queue_serial clock) \<noteq> s \<or> isnan p)"
proof (intro conjI)
  show "ff_clock_get mem clock now =
     (if mem (queue_serial clock) \<noteq> ff_clock.serial clock then NaN
      else if ff_clock.paused clock \<noteq> 0 then ff_clock.pts clock
      else pts_drift clock + seconds now
           - (seconds now - last_updated clock) * (Fin 1 - speed clock))"
    by (simp add: ff_clock_get_def Let_def)
  show "isnan (ff_clock_get mem (ff_clock_init clock r t0) now)"
    by (simp add: ff_clock_get_def ff_clock_init_def ff_clock_set_def ff_clock_set_at_def)
  show "isnan (ff_clock_get mem (ff_clock_set_at (clock\<lparr>speed := Fin v\<rparr>) p s (Fin t)) now)
        \<longleftrightarrow> mem (queue_serial clock) \<noteq> s \<or> isnan p"
    by (cases p) (simp_all add: ff_clock_get_set_at seconds_Fin)
qed

definition fresh_clock :: "unit ff_clock" where
  \<comment> \<open>the clock \<^verbatim>\<open>ff_clock_init\<close> leaves when called at time 0\<close>
  "fresh_clock =
     \<lparr>ff_clock.pts = NaN, pts_drift = NaN, last_updated = Fin 0, speed = Fin 1,
      serial = - 1, paused = 0, queue_serial = ()\<rparr>"

theorem ff_clock_get_cases_witness:
  "ff_clock_get (\<lambda>_. 7) (ff_clock_set_at fresh_clock (Fin 2) 7 (Fin 1)) 3000000 = Fin 4
   \<and> ff_clock_get (\<lambda>_. 8) (ff_clock_set_at fresh_clock (Fin 2) 7 (Fin 1)) 3000000 = NaN
   \<and> isnan (ff_clock_get (\<lambda>_. - 1) (ff_clock_init fresh_clock () 0) 3000000)
   \<and> isnan (ff_clock_get (\<lambda>_. 7) (ff_clock_set_at (fresh_clock\<lparr>speed := Fin 1\<rparr>) NaN 7 (Fin 1)) 3000000)"
  using ff_clock_get_cases [of "\<lambda>_. 7" "ff_clock_set_at fresh_clock (Fin 2) 7 (Fin 1)" 3000000
      "()" 0 1 NaN 7 1]
    ff_clock_get_cases [of "\<lambda>_. 8" "ff_clock_set_at fresh_clock (Fin 2) 7 (Fin 1)" 3000000
      "()" 0 1 NaN 7 1]
    ff_clock_get_cases [of "\<lambda>_. - 1" fresh_clock 3000000 "()" 0 1 NaN 7 1]
    ff_clock_get_cases [of "\<lambda>_. 7" fresh_clock 3000000 "()" 0 1 NaN 7 1]
  by (simp add: fresh_clock_def ff_clock_set_at_def seconds_Fin)

text \<open>
  Claim C2 as stated fails: the reader thread calls \<^verbatim>\<open>ff_clock_set(clock, NAN, 0)\<close>
  on a seek by bytes. After it the stored serial 0 agrees with the live serial 0 and the
  clock has been set since its init, yet the clock reads NaN.
\<close>

theorem ff_clock_get_NaN_counterexample:
  "ff_clock_get (\<lambda>_. 0) (ff_clock_set (ff_clock_init fresh_clock () 0) NaN 0 1000000) 2000000
     = NaN
   \<and> ff_clock.serial (ff_clock_set (ff_clock_init fresh_clock () 0) NaN 0 1000000) = 0"
  by (simp add: ff_clock_get_def ff_clock_set_def ff_clock_set_at_def ff_clock_init_def
      fresh_clock_def seconds_Fin)

text \<open>
  Claim C9. \<^verbatim>\<open>ff_clock_set_speed\<close> re-anchors the clock at the value it reads and then
  stores the new speed, so that reading the clock at the same instant \<open>now\<close> gives the
  value it gave before the call, for every clock state and every finite speed \<open>s\<close>
  (exactly, in the exact arithmetic of this model).
\<close>

theorem ff_clock_set_speed_preserves_get:
  "ff_clock_get mem (ff_clock_set_speed mem clock (Fin s) now now) now
     = ff_clock_get mem clock now"
proof -
  define v where "v = ff_clock_get mem clock now"
  have after: "ff_clock_get mem (ff_clock_set_speed mem clock (Fin s) now now) now =
      (if mem (queue_serial clock) \<noteq> ff_clock.serial clock then NaN
       else if ff_clock.paused clock \<noteq> 0 then v
       else v - seconds now + seconds now - (seconds now - seconds now) * (Fin 1 - Fin s))"
    unfolding ff_clock_set_speed_def ff_clock_set_def ff_clock_set_at_def v_def [symmetric]
    by (subst ff_clock_get_def) (simp add: Let_def)
  have anchored:
    "v - seconds now + seconds now - (seconds now - seconds now) * (Fin 1 - Fin s) = v"
    by (cases v) (simp_all add: seconds_Fin)
  have stale: "mem (queue_serial clock) \<noteq> ff_clock.serial clock \<Longrightarrow> v = NaN"
    by (simp add: v_def ff_clock_get_def)
  show ?thesis
    unfolding after anchored v_def [symmetric] using stale by simp
qed

theorem ff_clock_set_speed_preserves_get_witness:
  "ff_clock_get (\<lambda>_. 7)
     (ff_clock_set_speed (\<lambda>_. 7) (ff_clock_set_at fresh_clock (Fin 2) 7 (Fin 1)) (Fin (9 / 10))
        3000000 3000000) 3000000 = Fin 4"
proof -
  have "ff_clock_get (\<lambda>_. 7) (ff_clock_set_at fresh_clock (Fin 2) 7 (Fin 1)) 3000000 = Fin 4"
    by (simp add: ff_clock_get_def ff_clock_set_at_def fresh_clock_def seconds_Fin)
  then show ?thesis
    using ff_clock_set_speed_preserves_get
      [of "\<lambda>_. 7" "ff_clock_set_at fresh_clock (Fin 2) 7 (Fin 1)" "9 / 10" 3000000]
    by simp
qed

section \<open>packet_queue.c\<close>

text \<open>
  Of an \<^verbatim>\<open>AVPacket\<close> the model keeps the fields this repository reads or writes;
  \<open>buf\<close> says whether the packet owns a buffer (\<^verbatim>\<open>buf != NULL\<close>) and \<open>opaque_ref\<close>
  holds the \<^verbatim>\<open>pkt_pos\<close> of the \<^verbatim>\<open>ff_frame_data_t\<close> it points to, when it is not NULL.
\<close>

record AVPacket =
  buf :: bool
  size' :: int
  duration :: int
  stream_index :: int
  pos :: int
  opaque_ref :: "int option"

record packet_t =
  base :: AVPacket
  serial :: int

text \<open>
  The \<^verbatim>\<open>AVFifo\<close> of the queue is the list of its entries, oldest first. The mutex and the
  condition variable are not part of the state: every function below is the code that runs
  with the mutex held.
\<close>

record ff_packet_queue =
  packets :: "packet_t list"
  packet_count :: int
  size' :: "64 word"
  duration :: int
  aborted :: bool
  serial :: int

definition sizeof_packet_t :: "64 word" where
  \<comment> \<open>a pointer and an \<^verbatim>\<open>int\<close>, padded, where \<^verbatim>\<open>size_t\<close> has 64 bits\<close>
  "sizeof_packet_t = 16"

definition ENOMEM :: int where
  "ENOMEM = 12"

definition EAGAIN :: int where
  "EAGAIN = 11"

definition AVERROR :: "int \<Rightarrow> int" where
  "AVERROR e = - e"

definition av_fifo_read :: "'a list \<Rightarrow> ('a \<times> 'a list) option" where
  \<comment> \<open>reading one element: the oldest entry and the rest, or a negative result on an empty fifo\<close>
  "av_fifo_read fifo = (case fifo of [] \<Rightarrow> None | x # rest \<Rightarrow> Some (x, rest))"

text \<open>
  \<open>fifo_ret\<close> is what \<^verbatim>\<open>av_fifo_write\<close> returns: negative when the fifo could not
  grow, and then the fifo is as it was.
\<close>

definition packet_queue_put_private ::
  "ff_packet_queue \<Rightarrow> AVPacket \<Rightarrow> int \<Rightarrow> (int \<times> ff_packet_queue) option" where
  "packet_queue_put_private queue av_packet fifo_ret =
     (if aborted queue then Some (- 1, queue)
      else let packet = \<lparr>base = av_packet, serial = ff_packet_queue.serial queue\<rparr>
       in if fifo_ret < 0 then Some (fifo_ret, queue)
          else (case (c_int (packet_count queue + 1),
                      c_int64 (ff_packet_queue.duration queue + AVPacket.duration (base packet)))
            of (Some n, Some d) \<Rightarrow>
                 Some (0, queue\<lparr>packets := packets queue @ [packet],
                                 packet_count := n,
                                 ff_packet_queue.size' := ff_packet_queue.size' queue
                                   + (word_of_int (AVPacket.size' (base packet)) + sizeof_packet_t),
                                 ff_packet_queue.duration := d\<rparr>)
             | _ \<Rightarrow> None))"

text \<open>
  The four arguments of \<open>ff_packet_queue_create\<close> say whether \<^verbatim>\<open>calloc\<close>,
  \<^verbatim>\<open>av_fifo_alloc2\<close>, \<^verbatim>\<open>mtx_init\<close> and \<^verbatim>\<open>cnd_init\<close> succeed. \<^verbatim>\<open>calloc\<close> zeroes
  the struct.
\<close>

definition ff_packet_queue_create :: "bool \<Rightarrow> bool \<Rightarrow> bool \<Rightarrow> bool \<Rightarrow> ff_packet_queue option"
  where
  "ff_packet_queue_create calloc_ok fifo_ok mtx_ok cnd_ok =
     (if calloc_ok \<and> fifo_ok \<and> mtx_ok \<and> cnd_ok
      then Some \<lparr>packets = [], packet_count = 0, size' = 0, duration = 0, aborted = True,
                 serial = 0\<rparr>
      else None)"

definition ff_packet_queue_get_serial :: "ff_packet_queue \<Rightarrow> int" where
  "ff_packet_queue_get_serial queue = ff_packet_queue.serial queue"

definition ff_packet_queue_get_size :: "ff_packet_queue \<Rightarrow> 64 word" where
  "ff_packet_queue_get_size queue = ff_packet_queue.size' queue"

definition ff_packet_queue_get_packet_count :: "ff_packet_queue \<Rightarrow> int" where
  "ff_packet_queue_get_packet_count queue = packet_count queue"

definition ff_packet_queue_get_aborted :: "ff_packet_queue \<Rightarrow> bool" where
  "ff_packet_queue_get_aborted queue = aborted queue"

definition ff_packet_queue_get_duration :: "ff_packet_queue \<Rightarrow> int" where
  "ff_packet_queue_get_duration queue = ff_packet_queue.duration queue"

lemma av_fifo_read_shorter: "av_fifo_read fifo = Some (x, rest) \<Longrightarrow> length rest < length fifo"
  by (auto simp: av_fifo_read_def split: list.splits)

text \<open>The loop of \<^verbatim>\<open>ff_packet_queue_flush\<close>: read and free entries until the fifo is empty.\<close>

function flush_loop :: "packet_t list \<Rightarrow> packet_t list" where
  "flush_loop fifo =
     (case av_fifo_read fifo of None \<Rightarrow> fifo | Some (pkt1, rest) \<Rightarrow> flush_loop rest)"
  by pat_completeness auto
termination
  by (relation "measure length") (auto dest: av_fifo_read_shorter)

definition ff_packet_queue_flush :: "ff_packet_queue \<Rightarrow> ff_packet_queue option" where
  "ff_packet_queue_flush queue =
     (case c_int (ff_packet_queue.serial queue + 1) of
        None \<Rightarrow> None
      | Some s \<Rightarrow>
          Some (queue\<lparr>packets := flush_loop (packets queue), packet_count := 0,
                      ff_packet_queue.size' := 0, ff_packet_queue.duration := 0,
                      ff_packet_queue.serial := s\<rparr>))"

definition ff_packet_queue_start :: "ff_packet_queue \<Rightarrow> ff_packet_queue option" where
  "ff_packet_queue_start queue =
     (case c_int (ff_packet_queue.serial queue + 1) of
        None \<Rightarrow> None
      | Some s \<Rightarrow> Some (queue\<lparr>aborted := False, ff_packet_queue.serial := s\<rparr>))"

definition ff_packet_queue_abort :: "ff_packet_queue \<Rightarrow> ff_packet_queue" where
  "ff_packet_queue_abort queue = queue\<lparr>aborted := True\<rparr>"

text \<open>\<open>alloc_ok\<close> says whether \<^verbatim>\<open>av_packet_alloc\<close> succeeds.\<close>

definition ff_packet_queue_put ::
  "ff_packet_queue \<Rightarrow> AVPacket \<Rightarrow> bool \<Rightarrow> int \<Rightarrow> (int \<times> ff_packet_queue) option" where
  "ff_packet_queue_put queue src alloc_ok fifo_ret =
     (if \<not> alloc_ok then Some (AVERROR ENOMEM, queue)
      else packet_queue_put_private queue src fifo_ret)"

definition ff_packet_queue_put_nullpacket ::
  "ff_packet_queue \<Rightarrow> AVPacket \<Rightarrow> int \<Rightarrow> bool \<Rightarrow> int \<Rightarrow> (int \<times> ff_packet_queue) option" where
  "ff_packet_queue_put_nullpacket q pkt stream_index' alloc_ok fifo_ret =
     ff_packet_queue_put q (pkt\<lparr>stream_index := stream_index'\<rparr>) alloc_ok fifo_ret"

text \<open>
  \<^verbatim>\<open>ff_packet_queue_get\<close> returns \<open>-1\<close> on an aborted queue, \<open>1\<close> with the packet and
  the serial stamped on it, and \<open>0\<close> on an empty queue when \<open>block\<close> is 0. Otherwise it
  waits in \<^verbatim>\<open>cnd_wait\<close>, which releases the mutex: \<open>wakeups\<close> lists, for each return of
  \<^verbatim>\<open>cnd_wait\<close>, what the other threads did to the queue in the meantime. When the list is
  used up the call is still waiting.
\<close>

datatype get_outcome =
  Returned int "(AVPacket \<times> int) option" ff_packet_queue
  | Waiting ff_packet_queue
  | Undefined

text \<open>One pass through the body of the loop, up to \<^verbatim>\<open>cnd_wait\<close>.\<close>

definition packet_queue_get_pass :: "ff_packet_queue \<Rightarrow> int \<Rightarrow> get_outcome" where
  "packet_queue_get_pass queue block =
     (if aborted queue then Returned (- 1) None queue
      else case av_fifo_read (packets queue) of
        Some (packet, rest) \<Rightarrow>
          (case (c_int (packet_count queue - 1),
                 c_int64 (ff_packet_queue.duration queue - AVPacket.duration (base packet)))
           of (Some n, Some d) \<Rightarrow>
                Returned 1 (Some (base packet, packet_t.serial packet))
                  (queue\<lparr>packets := rest, packet_count := n,
                         ff_packet_queue.size' := ff_packet_queue.size' queue
                           - (word_of_int (AVPacket.size' (base packet)) + sizeof_packet_t),
                         ff_packet_queue.duration := d\<rparr>)
            | _ \<Rightarrow> Undefined)
      | None \<Rightarrow> if block = 0 then Returned 0 None queue else Waiting queue)"

fun ff_packet_queue_get ::
  "ff_packet_queue \<Rightarrow> int \<Rightarrow> (ff_packet_queue \<Rightarrow> ff_packet_queue) list \<Rightarrow> get_outcome" where
  "ff_packet_queue_get queue block [] = packet_queue_get_pass queue block"
| "ff_packet_queue_get queue block (others # wakeups) =
     (case packet_queue_get_pass queue block of
        Waiting q \<Rightarrow> ff_packet_queue_get (others q) block wakeups
      | outcome \<Rightarrow> outcome)"

text \<open>
  The states a queue can reach: the operations that the threads of the player apply to it,
  one after the other, each under the mutex. A \<open>Get\<close> is one pass of
  \<^verbatim>\<open>ff_packet_queue_get\<close>; what a waiting call does after it wakes up is a later \<open>Get\<close>.
\<close>

datatype queue_op =
  Start
  | Abort
  | Flush
  | Put AVPacket bool int
  | Put_nullpacket AVPacket int bool int
  | Get int

fun apply_op :: "ff_packet_queue \<Rightarrow> queue_op \<Rightarrow> ff_packet_queue option" where
  "apply_op q Start = ff_packet_queue_start q"
| "apply_op q Abort = Some (ff_packet_queue_abort q)"
| "apply_op q Flush = ff_packet_queue_flush q"
| "apply_op q (Put src alloc_ok fifo_ret) =
     map_option snd (ff_packet_queue_put q src alloc_ok fifo_ret)"
| "apply_op q (Put_nullpacket pkt i alloc_ok fifo_ret) =
     map_option snd (ff_packet_queue_put_nullpacket q pkt i alloc_ok fifo_ret)"
| "apply_op q (Get block) =
     (case ff_packet_queue_get q block [] of
        Returned ret out q' \<Rightarrow> Some q'
      | Waiting q' \<Rightarrow> Some q'
      | Undefined \<Rightarrow> None)"

fun run_ops :: "ff_packet_queue \<Rightarrow> queue_op list \<Rightarrow> ff_packet_queue option" where
  "run_ops q [] = Some q"
| "run_ops q (x # ops) = (case apply_op q x of None \<Rightarrow> None | Some q' \<Rightarrow> run_ops q' ops)"

definition stamps_bounded :: "ff_packet_queue \<Rightarrow> bool" where
  "stamps_bounded q = list_all (\<lambda>p. packet_t.serial p \<le> ff_packet_queue.serial q) (packets q)"

section \<open>Properties of the packet queue\<close>

lemma flush_loop_empty: "flush_loop fifo = []"
  by (induction fifo rule: flush_loop.induct)
    (simp split: option.splits prod.splits add: av_fifo_read_def list.case_eq_if)

declare flush_loop.simps [simp del]

text \<open>
  Claim C6. Whenever \<^verbatim>\<open>ff_packet_queue_flush\<close> returns, on any queue, the queue it leaves
  holds no packets, has packet count 0, byte size 0 and duration 0, and a serial strictly
  greater than before the call. It does return on every queue whose serial is an
  \<^verbatim>\<open>int\<close> below \<^verbatim>\<open>INT_MAX\<close> (at \<^verbatim>\<open>INT_MAX\<close> the increment of the serial is a signed
  overflow, which C leaves undefined).
\<close>

theorem ff_packet_queue_flush_resets:
  "(ff_packet_queue_flush queue = Some q' \<longrightarrow>
      packets q' = [] \<and> packet_count q' = 0 \<and> ff_packet_queue.size' q' = 0
      \<and> ff_packet_queue.duration q' = 0
      \<and> ff_packet_queue.serial queue < ff_packet_queue.serial q')
   \<and> (INT_MIN \<le> ff_packet_queue.serial queue \<and> ff_packet_queue.serial queue < INT_MAX \<longrightarrow>
      ff_packet_queue_flush queue \<noteq> None)"
  by (auto simp: ff_packet_queue_flush_def c_int_def flush_loop_empty split: option.splits if_splits)

definition packet5 :: AVPacket where
  "packet5 = \<lparr>buf = True, size' = 100, duration = 40, stream_index = 0, pos = 0,
              opaque_ref = None\<rparr>"

definition queue3 :: ff_packet_queue where
  \<comment> \<open>a started queue at serial 3 that holds one packet, stamped 3\<close>
  "queue3 = \<lparr>packets = [\<lparr>base = packet5, serial = 3\<rparr>], packet_count = 1, size' = 116,
             duration = 40, aborted = False, serial = 3\<rparr>"

theorem ff_packet_queue_flush_resets_witness:
  "ff_packet_queue_flush queue3
     = Some \<lparr>packets = [], packet_count = 0, size' = 0, duration = 0, aborted = False,
             serial = 4\<rparr>
   \<and> ff_packet_queue.serial queue3 = 3"
proof -
  have range: "INT_MIN \<le> ff_packet_queue.serial queue3 \<and> ff_packet_queue.serial queue3 < INT_MAX"
    by (simp add: queue3_def INT_MIN_def INT_MAX_def)
  obtain q' where ret: "ff_packet_queue_flush queue3 = Some q'"
    using ff_packet_queue_flush_resets [of queue3] range by blast
  with ff_packet_queue_flush_resets [of queue3 q']
  have "packets q' = []" "packet_count q' = 0" "ff_packet_queue.size' q' = 0"
    "ff_packet_queue.duration q' = 0"
    by simp_all
  moreover have "aborted q' = False" "ff_packet_queue.serial q' = 4"
    using ret
    by (auto simp: ff_packet_queue_flush_def queue3_def c_int_def split: option.splits if_splits)
  ultimately have "q' = \<lparr>packets = [], packet_count = 0, size' = 0, duration = 0,
      aborted = False, serial = 4\<rparr>"
    by simp
  with ret show ?thesis by (simp add: queue3_def)
qed

subsection \<open>Stamps and the serial of the queue\<close>

lemma put_private_cases:
  assumes "packet_queue_put_private q pkt fifo_ret = Some (ret, q')"
  shows "(ret < 0 \<and> q' = q) \<or>
         (ret = 0 \<and> \<not> aborted q \<and> ff_packet_queue.serial q' = ff_packet_queue.serial q
            \<and> aborted q' = aborted q
            \<and> packets q' = packets q @ [\<lparr>base = pkt, serial = ff_packet_queue.serial q\<rparr>])"
  using assms
  by (auto simp: packet_queue_put_private_def Let_def split: if_splits option.splits)

lemma put_cases:
  assumes "ff_packet_queue_put q src alloc_ok fifo_ret = Some (ret, q')"
  shows "(ret < 0 \<and> q' = q) \<or>
         (ret = 0 \<and> \<not> aborted q \<and> ff_packet_queue.serial q' = ff_packet_queue.serial q
            \<and> aborted q' = aborted q
            \<and> packets q' = packets q @ [\<lparr>base = src, serial = ff_packet_queue.serial q\<rparr>])"
  using assms put_private_cases [of q src fifo_ret ret q']
  by (auto simp: ff_packet_queue_put_def AVERROR_def ENOMEM_def split: if_splits)

lemma get_pass_cases:
  "packet_queue_get_pass q block = Undefined \<or>
   packet_queue_get_pass q block = Waiting q \<or>
   (\<exists>ret. ret \<le> 0 \<and> packet_queue_get_pass q block = Returned ret None q) \<or>
   (\<exists>p rest q'. packets q = p # rest \<and> \<not> aborted q
      \<and> packet_queue_get_pass q block = Returned 1 (Some (base p, packet_t.serial p)) q'
      \<and> packets q' = rest \<and> ff_packet_queue.serial q' = ff_packet_queue.serial q
      \<and> aborted q' = aborted q)"
  by (auto simp: packet_queue_get_pass_def av_fifo_read_def
      split: list.splits option.splits)

lemma apply_op_serial:
  assumes "apply_op q x = Some q'"
  shows "ff_packet_queue.serial q' =
           (if x = Start \<or> x = Flush then ff_packet_queue.serial q + 1
            else ff_packet_queue.serial q)"
proof (cases x)
  case Start
  with assms show ?thesis
    by (auto simp: ff_packet_queue_start_def c_int_def split: option.splits if_splits)
next
  case Abort
  with assms show ?thesis by (auto simp: ff_packet_queue_abort_def)
next
  case Flush
  with assms show ?thesis
    by (auto simp: ff_packet_queue_flush_def c_int_def split: option.splits if_splits)
next
  case (Put src alloc_ok fifo_ret)
  with assms obtain ret where "ff_packet_queue_put q src alloc_ok fifo_ret = Some (ret, q')"
    by auto
  from put_cases [OF this] Put show ?thesis by auto
next
  case (Put_nullpacket pkt i alloc_ok fifo_ret)
  with assms obtain ret where
    "ff_packet_queue_put q (pkt\<lparr>stream_index := i\<rparr>) alloc_ok fifo_ret = Some (ret, q')"
    by (auto simp: ff_packet_queue_put_nullpacket_def)
  from put_cases [OF this] Put_nullpacket show ?thesis by auto
next
  case (Get block)
  with assms get_pass_cases [of q block] show ?thesis
    by (auto split: get_outcome.splits)
qed

lemma apply_op_stamps:
  assumes "stamps_bounded q" and "apply_op q x = Some q'"
  shows "stamps_bounded q'"
proof (cases x)
  case Start
  with assms show ?thesis
    by (fastforce simp: ff_packet_queue_start_def c_int_def stamps_bounded_def list_all_iff
        split: option.splits if_splits)
next
  case Abort
  with assms show ?thesis by (auto simp: ff_packet_queue_abort_def stamps_bounded_def)
next
  case Flush
  with assms show ?thesis
    by (auto simp: ff_packet_queue_flush_def c_int_def stamps_bounded_def flush_loop_empty
        split: option.splits if_splits)
next
  case (Put src alloc_ok fifo_ret)
  with assms obtain ret where "ff_packet_queue_put q src alloc_ok fifo_ret = Some (ret, q')"
    by auto
  from put_cases [OF this] assms(1) show ?thesis
    by (auto simp: stamps_bounded_def)
next
  case (Put_nullpacket pkt i alloc_ok fifo_ret)
  with assms obtain ret where
    "ff_packet_queue_put q (pkt\<lparr>stream_index := i\<rparr>) alloc_ok fifo_ret = Some (ret, q')"
    by (auto simp: ff_packet_queue_put_nullpacket_def)
  from put_cases [OF this] assms(1) show ?thesis
    by (auto simp: stamps_bounded_def)
next
  case (Get block)
  with assms get_pass_cases [of q block] show ?thesis
    by (auto simp: stamps_bounded_def split: get_outcome.splits)
qed

lemma run_ops_stamps:
  "stamps_bounded q \<Longrightarrow> run_ops q ops = Some q' \<Longrightarrow> stamps_bounded q'"
proof (induction ops arbitrary: q)
  case Nil
  then show ?case by simp
next
  case (Cons x ops)
  then show ?case
    by (auto split: option.splits dest: apply_op_stamps)
qed

lemma create_stamps: "ff_packet_queue_create a b c d = Some q0 \<Longrightarrow> stamps_bounded q0"
  by (auto simp: ff_packet_queue_create_def stamps_bounded_def split: if_splits)

text \<open>
  Claim C7. In every state \<open>q\<close> that a queue reaches from \<^verbatim>\<open>ff_packet_queue_create\<close>
  through its operations, every packet stored carries a serial less than or equal to the
  serial of the queue. A put that succeeds appends the packet stamped with the serial of
  the queue at that time; every operation leaves the serial as it is, except start and
  flush, which increment it; and the state after any operation again has every stamp
  bounded by the serial.
\<close>

theorem packet_stamps_bounded:
  assumes "ff_packet_queue_create calloc_ok fifo_ok mtx_ok cnd_ok = Some q0"
    and "run_ops q0 ops = Some q"
  shows "(\<forall>p \<in> set (packets q). packet_t.serial p \<le> ff_packet_queue.serial q)
     \<and> (\<forall>src alloc_ok fifo_ret q'.
           ff_packet_queue_put q src alloc_ok fifo_ret = Some (0, q') \<longrightarrow>
           packets q' = packets q @ [\<lparr>base = src, serial = ff_packet_queue.serial q\<rparr>])
     \<and> (\<forall>x q'. apply_op q x = Some q' \<longrightarrow>
           ff_packet_queue.serial q' =
             (if x = Start \<or> x = Flush then ff_packet_queue.serial q + 1
              else ff_packet_queue.serial q)
           \<and> (\<forall>p \<in> set (packets q'). packet_t.serial p \<le> ff_packet_queue.serial q'))"
proof -
  have inv: "stamps_bounded q"
    using create_stamps [OF assms(1)] assms(2) by (rule run_ops_stamps)
  have "\<And>x q'. apply_op q x = Some q' \<Longrightarrow> stamps_bounded q'"
    using inv by (rule apply_op_stamps)
  moreover have "\<And>src alloc_ok fifo_ret q'.
      ff_packet_queue_put q src alloc_ok fifo_ret = Some (0, q') \<Longrightarrow>
      packets q' = packets q @ [\<lparr>base = src, serial = ff_packet_queue.serial q\<rparr>]"
    using put_cases by fastforce
  ultimately show ?thesis
    using inv apply_op_serial by (simp add: stamps_bounded_def list_all_iff)
qed

definition created_queue :: ff_packet_queue where
  \<comment> \<open>the queue \<^verbatim>\<open>ff_packet_queue_create\<close> returns\<close>
  "created_queue = \<lparr>packets = [], packet_count = 0, size' = 0, duration = 0, aborted = True,
                     serial = 0\<rparr>"

definition queue1 :: ff_packet_queue where
  \<comment> \<open>the created queue after a start and the put of \<open>packet5\<close>\<close>
  "queue1 = \<lparr>packets = [\<lparr>base = packet5, serial = 1\<rparr>], packet_count = 1, size' = 116,
             duration = 40, aborted = False, serial = 1\<rparr>"

lemma created_queue_eq: "ff_packet_queue_create True True True True = Some created_queue"
  by (simp add: ff_packet_queue_create_def created_queue_def)

lemma queue1_reached: "run_ops created_queue [Start, Put packet5 True 0] = Some queue1"
  by (simp add: created_queue_def queue1_def packet5_def ff_packet_queue_start_def
      ff_packet_queue_put_def packet_queue_put_private_def c_int_def c_int64_def
      INT_MIN_def INT_MAX_def INT64_MIN_def INT64_MAX_def sizeof_packet_t_def)

theorem packet_stamps_bounded_witness:
  "ff_packet_queue_create True True True True = Some created_queue
   \<and> run_ops created_queue [Start, Put packet5 True 0] = Some queue1
   \<and> list_all (\<lambda>p. packet_t.serial p \<le> ff_packet_queue.serial queue1) (packets queue1)
   \<and> packets queue1 = [\<lparr>base = packet5, serial = 1\<rparr>]
   \<and> ff_packet_queue.serial queue1 = 1"
proof -
  from packet_stamps_bounded [OF created_queue_eq queue1_reached]
  have "\<forall>p \<in> set (packets queue1). packet_t.serial p \<le> ff_packet_queue.serial queue1"
    by blast
  then have "list_all (\<lambda>p. packet_t.serial p \<le> ff_packet_queue.serial queue1) (packets queue1)"
    by (simp add: list_all_iff)
  moreover have "packets queue1 = [\<lparr>base = packet5, serial = 1\<rparr>]"
    and "ff_packet_queue.serial queue1 = 1"
    by (simp_all add: queue1_def)
  ultimately show ?thesis
    using created_queue_eq queue1_reached by blast
qed

subsection \<open>A queue that was not started\<close>

lemma aborted_put:
  "aborted q \<Longrightarrow>
   ff_packet_queue_put q src alloc_ok fifo_ret
     = Some (if alloc_ok then - 1 else AVERROR ENOMEM, q)"
  by (simp add: ff_packet_queue_put_def packet_queue_put_private_def)

lemma aborted_get:
  "aborted q \<Longrightarrow> ff_packet_queue_get q block wakeups = Returned (- 1) None q"
  by (cases wakeups) (simp_all add: packet_queue_get_pass_def)

lemma apply_op_aborted:
  assumes "aborted q" and "x \<noteq> Start" and "apply_op q x = Some q'"
  shows "aborted q'"
proof (cases x)
  case Flush
  with assms show ?thesis
    by (auto simp: ff_packet_queue_flush_def split: option.splits)
next
  case (Get block)
  with assms show ?thesis by (auto simp: packet_queue_get_pass_def)
qed (use assms in \<open>auto simp: ff_packet_queue_abort_def aborted_put
      ff_packet_queue_put_nullpacket_def\<close>)

lemma run_ops_aborted:
  "aborted q \<Longrightarrow> Start \<notin> set ops \<Longrightarrow> run_ops q ops = Some q' \<Longrightarrow> aborted q'"
proof (induction ops arbitrary: q)
  case Nil
  then show ?case by simp
next
  case (Cons x ops)
  from Cons.prems obtain q1 where step: "apply_op q x = Some q1" and rest: "run_ops q1 ops = Some q'"
    by (auto split: option.splits)
  from Cons.prems have "x \<noteq> Start" "Start \<notin> set ops" by auto
  with Cons.IH [of q1] apply_op_aborted [OF Cons.prems(1) _ step] rest show ?case by blast
qed

text \<open>
  Claim C10. A queue returned by \<^verbatim>\<open>ff_packet_queue_create\<close> is aborted, and stays so
  through every sequence of operations without a start. In such a state \<open>q\<close> every
  \<^verbatim>\<open>ff_packet_queue_put\<close> and \<^verbatim>\<open>ff_packet_queue_put_nullpacket\<close> returns a negative
  result and leaves the queue, hence its count, size and duration, as it was; and every
  \<^verbatim>\<open>ff_packet_queue_get\<close> returns \<open>-1\<close> without a packet, at once (it does not reach
  \<^verbatim>\<open>cnd_wait\<close>), whatever \<open>block\<close> is and whatever packets \<open>ps\<close> the fifo would hold.
\<close>

theorem created_queue_aborted_until_start:
  assumes "ff_packet_queue_create calloc_ok fifo_ok mtx_ok cnd_ok = Some q0"
    and "Start \<notin> set ops"
    and "run_ops q0 ops = Some q"
  shows "aborted q
     \<and> (\<exists>ret q'. ff_packet_queue_put q src alloc_ok fifo_ret = Some (ret, q') \<and> ret < 0
           \<and> q' = q \<and> packet_count q' = packet_count q
           \<and> ff_packet_queue.size' q' = ff_packet_queue.size' q
           \<and> ff_packet_queue.duration q' = ff_packet_queue.duration q)
     \<and> (\<exists>ret. ff_packet_queue_put_nullpacket q pkt i alloc_ok fifo_ret = Some (ret, q)
           \<and> ret < 0)
     \<and> ff_packet_queue_get (q\<lparr>packets := ps\<rparr>) block wakeups
         = Returned (- 1) None (q\<lparr>packets := ps\<rparr>)"
proof -
  from assms(1) have "aborted q0"
    by (auto simp: ff_packet_queue_create_def split: if_splits)
  then have ab: "aborted q"
    using assms(2,3) by (rule run_ops_aborted)
  then have "aborted (q\<lparr>packets := ps\<rparr>)" by simp
  then have "ff_packet_queue_get (q\<lparr>packets := ps\<rparr>) block wakeups
      = Returned (- 1) None (q\<lparr>packets := ps\<rparr>)"
    by (rule aborted_get)
  with ab show ?thesis
    by (simp add: aborted_put ff_packet_queue_put_nullpacket_def AVERROR_def ENOMEM_def)
qed

lemma created_flushed:
  "run_ops created_queue [Abort, Flush, Put packet5 True 0, Get 1]
     = Some (created_queue\<lparr>ff_packet_queue.serial := 1\<rparr>)"
  by (simp add: created_queue_def ff_packet_queue_abort_def ff_packet_queue_flush_def
      flush_loop_empty ff_packet_queue_put_def packet_queue_put_private_def
      packet_queue_get_pass_def c_int_def INT_MIN_def INT_MAX_def)

theorem created_queue_aborted_until_start_witness:
  "ff_packet_queue_put (created_queue\<lparr>ff_packet_queue.serial := 1\<rparr>) packet5 True 0
      = Some (- 1, created_queue\<lparr>ff_packet_queue.serial := 1\<rparr>)
   \<and> ff_packet_queue_get
        (created_queue\<lparr>ff_packet_queue.serial := 1, packets := [\<lparr>base = packet5, serial = 1\<rparr>]\<rparr>)
        1 []
      = Returned (- 1) None
          (created_queue\<lparr>ff_packet_queue.serial := 1,
             packets := [\<lparr>base = packet5, serial = 1\<rparr>]\<rparr>)"
proof -
  have "Start \<notin> set [Abort, Flush, Put packet5 True 0, Get 1]" by simp
  from created_queue_aborted_until_start [OF created_queue_eq this created_flushed,
      of packet5 True 0 packet5 0 "[\<lparr>base = packet5, serial = 1\<rparr>]" 1 "[]"]
  show ?thesis by (auto simp: aborted_put created_queue_def)
qed

section \<open>ff_player.c: the synchronizer and the reader's backpressure\<close>

definition MIN_FRAMES :: int where
  "MIN_FRAMES = 10"

definition EXTERNAL_CLOCK_MIN_FRAMES :: int where
  "EXTERNAL_CLOCK_MIN_FRAMES = 2"

definition EXTERNAL_CLOCK_MAX_FRAMES :: int where
  "EXTERNAL_CLOCK_MAX_FRAMES = 10"

definition SAMPLE_CORRECTION_PERCENT_MAX :: int where
  "SAMPLE_CORRECTION_PERCENT_MAX = 10"

definition AUDIO_DIFF_AVG_NB :: int where
  "AUDIO_DIFF_AVG_NB = 20"

definition MAX_QUEUE_SIZE :: int where
  "MAX_QUEUE_SIZE = 15 * 1024 * 1024"

definition AV_NOSYNC_THRESHOLD :: double where
  "AV_NOSYNC_THRESHOLD = Fin 10"

definition AV_SYNC_THRESHOLD_MIN :: double where
  "AV_SYNC_THRESHOLD_MIN = Fin (4 / 100)"

definition AV_SYNC_THRESHOLD_MAX :: double where
  "AV_SYNC_THRESHOLD_MAX = Fin (1 / 10)"

definition AV_SYNC_FRAMEDUP_THRESHOLD :: double where
  "AV_SYNC_FRAMEDUP_THRESHOLD = Fin (1 / 10)"

definition EXTERNAL_CLOCK_SPEED_MIN :: double where
  "EXTERNAL_CLOCK_SPEED_MIN = Fin (900 / 1000)"

definition EXTERNAL_CLOCK_SPEED_MAX :: double where
  "EXTERNAL_CLOCK_SPEED_MAX = Fin (1010 / 1000)"

definition EXTERNAL_CLOCK_SPEED_STEP :: double where
  "EXTERNAL_CLOCK_SPEED_STEP = Fin (1 / 1000)"

definition AV_DISPOSITION_ATTACHED_PIC :: "32 word" where
  "AV_DISPOSITION_ATTACHED_PIC = 0x0400"

datatype ff_av_sync = FF_AV_SYNC_AUDIO_MASTER | FF_AV_SYNC_VIDEO_MASTER | FF_AV_SYNC_EXTERNAL_CLOCK

record AVRational =
  num :: int
  den :: int

definition av_q2d :: "AVRational \<Rightarrow> double" where
  \<comment> \<open>libavutil: \<^verbatim>\<open>a.num / (double) a.den\<close>\<close>
  "av_q2d a = Fin (real_of_int (num a)) / Fin (real_of_int (den a))"

record AVStream =
  disposition :: "32 word"
  time_base :: AVRational

text \<open>
  The three cells a clock of the player points to: the serials of the two packet queues,
  and the external clock's own serial (\<^verbatim>\<open>ff_clock_init(&player->external_clock,
  &player->external_clock.serial)\<close>).
\<close>

datatype serial_ref = Audio_queue_serial | Video_queue_serial | External_clock_serial

text \<open>
  The fields of \<^verbatim>\<open>struct ff_player\<close> that the functions below read or write. A stream
  pointer that is NULL is \<open>None\<close>; \<open>audio_source_freq\<close> is \<^verbatim>\<open>audio_source.freq\<close>.
\<close>

record ff_player =
  paused :: bool
  realtime :: bool
  audio_clock :: "serial_ref ff_clock"
  video_clock :: "serial_ref ff_clock"
  external_clock :: "serial_ref ff_clock"
  av_sync_type :: ff_av_sync
  audio_stream_index :: int
  video_stream_index :: int
  audio_stream :: "AVStream option"
  video_stream :: "AVStream option"
  audio_packet_queue :: ff_packet_queue
  video_packet_queue :: ff_packet_queue
  audio_diff_cum :: double
  audio_diff_avg_coef :: double
  audio_diff_threshold :: double
  audio_diff_avg_count :: int
  audio_source_freq :: int
  max_frame_duration :: double

definition mem_of :: "ff_player \<Rightarrow> serial_ref \<Rightarrow> int" where
  "mem_of player r =
     (case r of
        Audio_queue_serial \<Rightarrow> ff_packet_queue.serial (audio_packet_queue player)
      | Video_queue_serial \<Rightarrow> ff_packet_queue.serial (video_packet_queue player)
      | External_clock_serial \<Rightarrow> ff_clock.serial (external_clock player))"

definition get_master_sync_type :: "ff_player \<Rightarrow> ff_av_sync" where
  "get_master_sync_type player =
     (let sync_type = FF_AV_SYNC_EXTERNAL_CLOCK;
          sync_type =
            (if av_sync_type player = FF_AV_SYNC_VIDEO_MASTER
             then (if video_stream player \<noteq> None then FF_AV_SYNC_VIDEO_MASTER
                   else FF_AV_SYNC_AUDIO_MASTER)
             else sync_type);
          sync_type =
            (if av_sync_type player = FF_AV_SYNC_AUDIO_MASTER
             then (if audio_stream player \<noteq> None then FF_AV_SYNC_AUDIO_MASTER
                   else FF_AV_SYNC_EXTERNAL_CLOCK)
             else sync_type)
      in sync_type)"

definition get_master_clock :: "ff_player \<Rightarrow> int \<Rightarrow> double" where
  "get_master_clock player now =
     (case get_master_sync_type player of
        FF_AV_SYNC_VIDEO_MASTER \<Rightarrow> ff_clock_get (mem_of player) (video_clock player) now
      | FF_AV_SYNC_AUDIO_MASTER \<Rightarrow> ff_clock_get (mem_of player) (audio_clock player) now
      | FF_AV_SYNC_EXTERNAL_CLOCK \<Rightarrow> ff_clock_get (mem_of player) (external_clock player) now)"

text \<open>
  \<open>t_get\<close> and \<open>t_set\<close> are the two readings of the time inside
  \<^verbatim>\<open>ff_clock_set_speed\<close>.
\<close>

definition check_external_clock_speed :: "ff_player \<Rightarrow> int \<Rightarrow> int \<Rightarrow> ff_player" where
  "check_external_clock_speed player t_get t_set =
     (if video_stream_index player \<ge> 0
           \<and> ff_packet_queue_get_packet_count (video_packet_queue player)
               \<le> EXTERNAL_CLOCK_MIN_FRAMES
         \<or> audio_stream_index player \<ge> 0
           \<and> ff_packet_queue_get_packet_count (audio_packet_queue player)
               \<le> EXTERNAL_CLOCK_MIN_FRAMES
      then player\<lparr>external_clock :=
             ff_clock_set_speed (mem_of player) (external_clock player)
               (FFMAX EXTERNAL_CLOCK_SPEED_MIN
                  (speed (external_clock player) - EXTERNAL_CLOCK_SPEED_STEP))
               t_get t_set\<rparr>
      else if (video_stream_index player < 0
                 \<or> ff_packet_queue_get_packet_count (video_packet_queue player)
                     > EXTERNAL_CLOCK_MAX_FRAMES)
              \<and> (audio_stream_index player < 0
                 \<or> ff_packet_queue_get_packet_count (audio_packet_queue player)
                     > EXTERNAL_CLOCK_MAX_FRAMES)
      then player\<lparr>external_clock :=
             ff_clock_set_speed (mem_of player) (external_clock player)
               (FFMIN EXTERNAL_CLOCK_SPEED_MAX
                  (speed (external_clock player) + EXTERNAL_CLOCK_SPEED_STEP))
               t_get t_set\<rparr>
      else let speed' = speed (external_clock player)
           in if dneq speed' (Fin 1)
              then player\<lparr>external_clock :=
                     ff_clock_set_speed (mem_of player) (external_clock player)
                       (speed' + EXTERNAL_CLOCK_SPEED_STEP * (Fin 1 - speed')
                                   / fabs (Fin 1 - speed'))
                       t_get t_set\<rparr>
              else player)"

text \<open>
  \<open>t_video\<close> is the time read by \<^verbatim>\<open>ff_clock_get(&player->video_clock)\<close> and
  \<open>t_master\<close> the time read inside \<^verbatim>\<open>get_master_clock\<close>.
\<close>

definition compute_target_delay :: "ff_player \<Rightarrow> double \<Rightarrow> int \<Rightarrow> int \<Rightarrow> double" where
  "compute_target_delay player delay t_video t_master =
     (if get_master_sync_type player \<noteq> FF_AV_SYNC_VIDEO_MASTER
      then let diff = ff_clock_get (mem_of player) (video_clock player) t_video
                        - get_master_clock player t_master;
               sync_threshold = FFMAX AV_SYNC_THRESHOLD_MIN (FFMIN AV_SYNC_THRESHOLD_MAX delay)
           in if \<not> isnan diff \<and> fabs diff < max_frame_duration player
              then if diff \<le> - sync_threshold then FFMAX (Fin 0) (delay + diff)
                   else if sync_threshold \<le> diff \<and> AV_SYNC_FRAMEDUP_THRESHOLD < delay
                   then delay + diff
                   else if sync_threshold \<le> diff then Fin 2 * delay
                   else delay
              else delay
      else delay)"

text \<open>
  \<^verbatim>\<open>stream_has_enough_packets\<close> dereferences \<open>stream\<close> only when \<open>stream_id\<close> is not
  negative and the queue is not aborted; a NULL pointer there has no result (\<open>None\<close>).
\<close>

definition stream_has_enough_packets ::
  "AVStream option \<Rightarrow> int \<Rightarrow> ff_packet_queue \<Rightarrow> bool option" where
  "stream_has_enough_packets stream stream_id queue =
     (if stream_id < 0 then Some True
      else if ff_packet_queue_get_aborted queue then Some True
      else case stream of
        None \<Rightarrow> None
      | Some st \<Rightarrow>
          Some (disposition st AND AV_DISPOSITION_ATTACHED_PIC \<noteq> 0
                \<or> ff_packet_queue_get_packet_count queue > MIN_FRAMES
                  \<and> (ff_packet_queue_get_duration queue = 0
                     \<or> Fin 1 < av_q2d (time_base st)
                                 * Fin (real_of_int (ff_packet_queue_get_duration queue)))))"

text \<open>
  The test of \<^verbatim>\<open>read_thread\<close> that decides, on each tick of its loop, whether the reader
  waits up to 10 ms on \<^verbatim>\<open>continue_read_thread\<close> and restarts the loop instead of reading
  a packet. The sizes are \<^verbatim>\<open>size_t\<close>: their sum wraps around at \<open>2 ^ 64\<close>.
\<close>

definition read_thread_waits :: "ff_player \<Rightarrow> bool option" where
  "read_thread_waits player =
     (if word_of_int MAX_QUEUE_SIZE
           < ff_packet_queue_get_size (audio_packet_queue player)
             + ff_packet_queue_get_size (video_packet_queue player)
      then Some True
      else case stream_has_enough_packets (audio_stream player) (audio_stream_index player)
                  (audio_packet_queue player) of
        None \<Rightarrow> None
      | Some False \<Rightarrow> Some False
      | Some True \<Rightarrow>
          stream_has_enough_packets (video_stream player) (video_stream_index player)
            (video_packet_queue player))"

definition c_div :: "int \<Rightarrow> int \<Rightarrow> int" where
  \<comment> \<open>the quotient of C, which truncates towards zero\<close>
  "c_div a b = (if (a < 0) = (b < 0) then \<bar>a\<bar> div \<bar>b\<bar> else - (\<bar>a\<bar> div \<bar>b\<bar>))"

definition av_clip :: "int \<Rightarrow> int \<Rightarrow> int \<Rightarrow> int" where
  \<comment> \<open>libavutil: \<^verbatim>\<open>if (a < amin) return amin; else if (a > amax) return amax; else return a;\<close>\<close>
  "av_clip a amin amax = (if a < amin then amin else if a > amax then amax else a)"

definition c_trunc :: "real \<Rightarrow> int" where
  "c_trunc a = (if 0 \<le> a then \<lfloor>a\<rfloor> else \<lceil>a\<rceil>)"

definition double_to_int :: "double \<Rightarrow> int option" where
  \<comment> \<open>the cast \<^verbatim>\<open>(int)x\<close>: the fraction is discarded; undefined for NaN and out of range\<close>
  "double_to_int x = (case x of NaN \<Rightarrow> None | Fin a \<Rightarrow> c_int (c_trunc a))"

text \<open>
  \<open>t_audio\<close> is the time read by \<^verbatim>\<open>ff_clock_get(&player->audio_clock)\<close> and
  \<open>t_master\<close> the time read inside \<^verbatim>\<open>get_master_clock\<close>. The counter incremented is
  below 20, so that increment cannot overflow.
\<close>

definition synchronize_audio ::
  "ff_player \<Rightarrow> int \<Rightarrow> int \<Rightarrow> int \<Rightarrow> (int \<times> ff_player) option" where
  "synchronize_audio player sample_count t_audio t_master =
     (if get_master_sync_type player \<noteq> FF_AV_SYNC_AUDIO_MASTER
      then let diff = ff_clock_get (mem_of player) (audio_clock player) t_audio
                        - get_master_clock player t_master
           in if \<not> isnan diff \<and> fabs diff < AV_NOSYNC_THRESHOLD
              then let player = player\<lparr>audio_diff_cum :=
                            diff + audio_diff_avg_coef player * audio_diff_cum player\<rparr>
                   in if audio_diff_avg_count player < AUDIO_DIFF_AVG_NB
                      then Some (sample_count,
                             player\<lparr>audio_diff_avg_count := audio_diff_avg_count player + 1\<rparr>)
                      else let avg_diff = audio_diff_cum player
                                            * (Fin 1 - audio_diff_avg_coef player)
                           in if audio_diff_threshold player \<le> fabs avg_diff
                              then (case (double_to_int
                                            (diff * Fin (real_of_int (audio_source_freq player))),
                                          c_int (sample_count
                                                   * (100 - SAMPLE_CORRECTION_PERCENT_MAX)),
                                          c_int (sample_count
                                                   * (100 + SAMPLE_CORRECTION_PERCENT_MAX)))
                                of (Some k, Some lo, Some hi) \<Rightarrow>
                                     (case c_int (sample_count + k) of
                                        Some wanted_sample_count \<Rightarrow>
                                          Some (av_clip wanted_sample_count (c_div lo 100)
                                                  (c_div hi 100), player)
                                      | None \<Rightarrow> None)
                                 | _ \<Rightarrow> None)
                              else Some (sample_count, player)
              else Some (sample_count,
                     player\<lparr>audio_diff_avg_count := 0, audio_diff_cum := Fin 0\<rparr>)
      else Some (sample_count, player))"

text \<open>
  The assignments of \<^verbatim>\<open>stream_open\<close> that prepare the drift correction when the audio
  stream is opened; \<open>hw_buf_size\<close> and \<open>bytes_per_sec\<close> are \<^verbatim>\<open>audio_hw_buf_size\<close> and
  \<^verbatim>\<open>audio_target.bytes_per_sec\<close>.
\<close>

definition stream_open_audio_diff :: "ff_player \<Rightarrow> int \<Rightarrow> int \<Rightarrow> ff_player" where
  "stream_open_audio_diff player hw_buf_size bytes_per_sec =
     player\<lparr>audio_diff_avg_coef := Fin (exp (ln (1 / 100) / real_of_int AUDIO_DIFF_AVG_NB)),
            audio_diff_avg_count := 0,
            audio_diff_threshold :=
              Fin (real_of_int hw_buf_size) / Fin (real_of_int bytes_per_sec)\<rparr>"

section \<open>Properties of the synchronizer\<close>

text \<open>The video target delay in the words of the specification, on reals.\<close>

definition target_delay_spec :: "bool \<Rightarrow> double \<Rightarrow> real \<Rightarrow> real \<Rightarrow> real" where
  "target_delay_spec master_is_video diff max_duration d =
     (if master_is_video then d
      else case diff of
        NaN \<Rightarrow> d
      | Fin x \<Rightarrow>
          if \<bar>x\<bar> \<ge> max_duration then d
          else let T = max (4 / 100) (min (10 / 100) d)
               in if x \<le> - T then max 0 (d + x)
                  else if x \<ge> T \<and> d > 10 / 100 then d + x
                  else if x \<ge> T then 2 * d
                  else d)"

text \<open>
  Claim C1. For every (finite) nominal delay \<open>d\<close>, and with
  \<open>diff = video_clock - master_clock\<close> as the code reads the two clocks,
  \<^verbatim>\<open>compute_target_delay\<close> returns \<open>d\<close> when the master is video, and when \<open>diff\<close> is
  NaN or \<open>|diff| \<ge> max_frame_duration\<close>; otherwise, with \<open>T = clamp(d, 0.04, 0.10)\<close>,
  it returns \<open>max(0, d + diff)\<close> when \<open>diff \<le> -T\<close>, \<open>d + diff\<close> when \<open>diff \<ge> T\<close> and
  \<open>d > 0.10\<close>, \<open>2 d\<close> when \<open>diff \<ge> T\<close> and \<open>d \<le> 0.10\<close>, and \<open>d\<close> in every
  remaining case. Here \<open>max_frame_duration\<close> is a finite number \<open>m\<close> (the reader sets it
  to 10 or 3600). A delay that is NaN is returned as it is, NaN, in every case.
\<close>

theorem compute_target_delay_cases:
  assumes "max_frame_duration player = Fin m"
  shows "compute_target_delay player (Fin d) t_video t_master =
     Fin (target_delay_spec (get_master_sync_type player = FF_AV_SYNC_VIDEO_MASTER)
            (ff_clock_get (mem_of player) (video_clock player) t_video
               - get_master_clock player t_master) m d)
   \<and> compute_target_delay player NaN t_video t_master = NaN"
proof
  show "compute_target_delay player NaN t_video t_master = NaN"
    by (simp add: compute_target_delay_def Let_def FFMAX_def FFMIN_def
        AV_SYNC_THRESHOLD_MIN_def AV_SYNC_THRESHOLD_MAX_def AV_SYNC_FRAMEDUP_THRESHOLD_def)
  show "compute_target_delay player (Fin d) t_video t_master =
     Fin (target_delay_spec (get_master_sync_type player = FF_AV_SYNC_VIDEO_MASTER)
            (ff_clock_get (mem_of player) (video_clock player) t_video
               - get_master_clock player t_master) m d)"
  proof (cases "get_master_sync_type player = FF_AV_SYNC_VIDEO_MASTER")
    case True
    then show ?thesis
      by (simp add: compute_target_delay_def target_delay_spec_def)
  next
    case False
    define diff where "diff = ff_clock_get (mem_of player) (video_clock player) t_video
        - get_master_clock player t_master"
    show ?thesis
    proof (cases diff)
      case NaN
      with False show ?thesis
        by (simp add: compute_target_delay_def target_delay_spec_def diff_def [symmetric] Let_def)
    next
      case (Fin x)
      define T :: real where "T = max (4 / 100) (min (10 / 100) d)"
      have thr: "FFMAX AV_SYNC_THRESHOLD_MIN (FFMIN AV_SYNC_THRESHOLD_MAX (Fin d)) = Fin T"
        by (simp add: FFMAX_def FFMIN_def AV_SYNC_THRESHOLD_MIN_def AV_SYNC_THRESHOLD_MAX_def
            max_def min_def T_def)
      have mx: "FFMAX (Fin 0) (Fin (d + x)) = Fin (max 0 (d + x))"
        by (simp add: FFMAX_def max_def)
      have code: "compute_target_delay player (Fin d) t_video t_master =
          (if \<bar>x\<bar> < m
           then if x \<le> - T then Fin (max 0 (d + x))
                else if T \<le> x \<and> 1 / 10 < d then Fin (d + x)
                else if T \<le> x then Fin (2 * d)
                else Fin d
           else Fin d)"
        using False Fin assms
        unfolding compute_target_delay_def diff_def [symmetric] Let_def thr
        by (simp add: mx AV_SYNC_FRAMEDUP_THRESHOLD_def)
      have spec: "target_delay_spec False (Fin x) m d =
          (if \<bar>x\<bar> \<ge> m then d
           else if x \<le> - T then max 0 (d + x)
           else if x \<ge> T \<and> d > 10 / 100 then d + x
           else if x \<ge> T then 2 * d
           else d)"
        unfolding target_delay_spec_def Let_def T_def by simp
      have not_video: "(get_master_sync_type player = FF_AV_SYNC_VIDEO_MASTER) = False"
        using False by simp
      show ?thesis
        unfolding code diff_def [symmetric] Fin not_video spec
        by (simp add: not_less)
    qed
  qed
qed

definition stream0 :: AVStream where
  \<comment> \<open>a stream without attached picture, in milliseconds\<close>
  "stream0 = \<lparr>disposition = 0, time_base = \<lparr>num = 1, den = 1000\<rparr>\<rparr>"

definition running_clock :: "real \<Rightarrow> int \<Rightarrow> serial_ref \<Rightarrow> serial_ref ff_clock" where
  \<comment> \<open>what \<^verbatim>\<open>ff_clock_set_at(clock, pts, serial, 1.0)\<close> leaves in a clock of speed 1\<close>
  "running_clock p n r =
     \<lparr>ff_clock.pts = Fin p, pts_drift = Fin (p - 1), last_updated = Fin 1, speed = Fin 1,
      serial = n, paused = 0, queue_serial = r\<rparr>"

definition player0 :: ff_player where
  \<comment> \<open>audio is the master, both streams are open, and the video clock is 0.2 s ahead\<close>
  "player0 =
     \<lparr>paused = False, realtime = False,
      audio_clock = running_clock 5 1 Audio_queue_serial,
      video_clock = running_clock (52 / 10) 1 Video_queue_serial,
      external_clock = running_clock 5 1 External_clock_serial,
      av_sync_type = FF_AV_SYNC_AUDIO_MASTER,
      audio_stream_index = 1, video_stream_index = 0,
      audio_stream = Some stream0, video_stream = Some stream0,
      audio_packet_queue = queue1, video_packet_queue = queue1,
      audio_diff_cum = Fin 0, audio_diff_avg_coef = Fin (exp (ln (1 / 100) / 20)),
      audio_diff_threshold = Fin 0, audio_diff_avg_count = 0,
      audio_source_freq = 48000, max_frame_duration = Fin 10\<rparr>"

theorem compute_target_delay_cases_witness:
  "max_frame_duration player0 = Fin 10
   \<and> compute_target_delay player0 (Fin (4 / 100)) 3000000 3000000 = Fin (8 / 100)"
proof -
  have m: "max_frame_duration player0 = Fin 10"
    by (simp add: player0_def)
  have "ff_clock_get (mem_of player0) (video_clock player0) 3000000
          - get_master_clock player0 3000000 = Fin (2 / 10)"
    by (simp add: player0_def get_master_clock_def get_master_sync_type_def ff_clock_get_def
        mem_of_def running_clock_def queue1_def seconds_Fin)
  moreover have "get_master_sync_type player0 \<noteq> FF_AV_SYNC_VIDEO_MASTER"
    by (simp add: player0_def get_master_sync_type_def)
  ultimately show ?thesis
    using compute_target_delay_cases [OF m, of "4 / 100" 3000000 3000000] m
    by (simp add: target_delay_spec_def)
qed

subsection \<open>External clock speed\<close>

lemma speed_ff_clock_set_speed [simp]: "speed (ff_clock_set_speed mem clock s t1 t2) = s"
  by (simp add: ff_clock_set_speed_def)

text \<open>
  The speed control in the words of the specification. \<open>starved\<close> is the test that a packet
  count is too low: claim C4 has it as "below \<^verbatim>\<open>EXTERNAL_CLOCK_MIN_FRAMES\<close>".
\<close>

definition external_clock_speed_spec :: "(int \<Rightarrow> bool) \<Rightarrow> ff_player \<Rightarrow> real \<Rightarrow> real" where
  "external_clock_speed_spec starved player s =
     (if video_stream_index player \<ge> 0 \<and> starved (packet_count (video_packet_queue player))
         \<or> audio_stream_index player \<ge> 0 \<and> starved (packet_count (audio_packet_queue player))
      then max (900 / 1000) (s - 1 / 1000)
      else if (video_stream_index player < 0 \<or> packet_count (video_packet_queue player) > 10)
            \<and> (audio_stream_index player < 0 \<or> packet_count (audio_packet_queue player) > 10)
      then min (1010 / 1000) (s + 1 / 1000)
      else s + 1 / 1000 * sgn (1 - s))"

definition player_video_only :: ff_player where
  \<comment> \<open>only video is open, its queue holds exactly 2 packets, the external clock runs at 1.0\<close>
  "player_video_only =
     player0\<lparr>av_sync_type := FF_AV_SYNC_EXTERNAL_CLOCK, realtime := True,
       audio_stream_index := - 1, audio_stream := None,
       video_packet_queue :=
         \<lparr>packets = [\<lparr>base = packet5, serial = 1\<rparr>, \<lparr>base = packet5, serial = 1\<rparr>],
          packet_count = 2, size' = 232, duration = 80, aborted = False, serial = 1\<rparr>\<rparr>"

text \<open>
  Claim C4 as stated fails where a queue holds exactly \<^verbatim>\<open>EXTERNAL_CLOCK_MIN_FRAMES\<close>
  packets: the count 2 is not below 2 and not above 10, so the claim leaves the speed 1.0
  unchanged, while the code compares with \<^verbatim>\<open><=\<close> and slows the clock to 0.999.
\<close>

theorem check_external_clock_speed_counterexample:
  "speed (external_clock (check_external_clock_speed player_video_only 3000000 3000000))
     = Fin (999 / 1000)
   \<and> speed (external_clock player_video_only) = Fin 1
   \<and> external_clock_speed_spec (\<lambda>n. n < EXTERNAL_CLOCK_MIN_FRAMES) player_video_only 1 = 1"
  by (simp add: check_external_clock_speed_def player_video_only_def player0_def
      ff_packet_queue_get_packet_count_def EXTERNAL_CLOCK_MIN_FRAMES_def
      external_clock_speed_spec_def running_clock_def FFMAX_def EXTERNAL_CLOCK_SPEED_MIN_def
      EXTERNAL_CLOCK_SPEED_STEP_def)

text \<open>
  Claim C4, as the code has it. In \<^verbatim>\<open>check_external_clock_speed\<close>, with a finite speed
  \<open>s\<close> of the external clock: if some open stream's packet count is at most
  \<^verbatim>\<open>EXTERNAL_CLOCK_MIN_FRAMES\<close> (2), the new speed is \<open>s - 0.001\<close> but not below 0.900;
  else if every open stream's count is above \<^verbatim>\<open>EXTERNAL_CLOCK_MAX_FRAMES\<close> (10), it is
  \<open>s + 0.001\<close> but not above 1.010; otherwise it is \<open>s + 0.001 * sign(1 - s)\<close>, which is
  \<open>s\<close> when \<open>s\<close> is exactly 1.0.
\<close>

theorem check_external_clock_speed_cases:
  assumes "speed (external_clock player) = Fin s"
  shows "speed (external_clock (check_external_clock_speed player t_get t_set))
     = Fin (external_clock_speed_spec (\<lambda>n. n \<le> EXTERNAL_CLOCK_MIN_FRAMES) player s)"
proof -
  have slow: "FFMAX EXTERNAL_CLOCK_SPEED_MIN (Fin s - EXTERNAL_CLOCK_SPEED_STEP)
      = Fin (max (900 / 1000) (s - 1 / 1000))"
    by (simp add: FFMAX_def EXTERNAL_CLOCK_SPEED_MIN_def EXTERNAL_CLOCK_SPEED_STEP_def max_def)
  have fast: "FFMIN EXTERNAL_CLOCK_SPEED_MAX (Fin s + EXTERNAL_CLOCK_SPEED_STEP)
      = Fin (min (1010 / 1000) (s + 1 / 1000))"
    by (simp add: FFMIN_def EXTERNAL_CLOCK_SPEED_MAX_def EXTERNAL_CLOCK_SPEED_STEP_def min_def)
  have drift: "Fin s + EXTERNAL_CLOCK_SPEED_STEP * Fin (1 - s) / Fin \<bar>1 - s\<bar>
      = Fin (s + sgn (1 - s) / 1000)" if "s \<noteq> 1"
  proof -
    have "1 / 1000 * (1 - s) / \<bar>1 - s\<bar> = 1 / 1000 * sgn (1 - s)"
    proof (cases "s < 1")
      case True
      then show ?thesis by (simp add: sgn_real_def)
    next
      case False
      with that have "1 < s" by simp
      then have "\<bar>1 - s\<bar> = - (1 - s)" "sgn (1 - s) = - 1" "1 - s \<noteq> 0"
        by (simp_all add: sgn_real_def)
      then show ?thesis by (simp del: minus_diff_eq)
    qed
    with that show ?thesis
      by (simp add: EXTERNAL_CLOCK_SPEED_STEP_def)
  qed
  show ?thesis
    unfolding check_external_clock_speed_def external_clock_speed_spec_def
      ff_packet_queue_get_packet_count_def EXTERNAL_CLOCK_MAX_FRAMES_def assms Let_def
    using assms by (simp add: slow fast drift)
qed

theorem check_external_clock_speed_cases_witness:
  "speed (external_clock player_video_only) = Fin 1
   \<and> speed (external_clock (check_external_clock_speed player_video_only 3000000 3000000))
     = Fin (999 / 1000)"
proof -
  have s: "speed (external_clock player_video_only) = Fin 1"
    by (simp add: player_video_only_def player0_def running_clock_def)
  show ?thesis
    using check_external_clock_speed_cases [OF s, of 3000000 3000000] s
    by (simp add: external_clock_speed_spec_def player_video_only_def player0_def
        EXTERNAL_CLOCK_MIN_FRAMES_def)
qed

subsection \<open>Backpressure of the reader\<close>

text \<open>
  Claim C5 in its own words: a queue has enough packets when its count exceeds 10 and its
  duration is more than 1 s of media, and the reader suspends when the aggregate size
  exceeds 15 MiB or either queue has enough.
\<close>

definition enough_packets_claimed :: "AVStream \<Rightarrow> ff_packet_queue \<Rightarrow> bool" where
  "enough_packets_claimed st queue \<longleftrightarrow>
     packet_count queue > 10
     \<and> Fin 1 < av_q2d (time_base st) * Fin (real_of_int (ff_packet_queue.duration queue))"

definition reader_suspends_claimed :: "ff_player \<Rightarrow> AVStream \<Rightarrow> AVStream \<Rightarrow> bool" where
  "reader_suspends_claimed player audio_st video_st \<longleftrightarrow>
     unat (ff_packet_queue.size' (audio_packet_queue player))
       + unat (ff_packet_queue.size' (video_packet_queue player)) > 15 * 1024 * 1024
     \<or> enough_packets_claimed audio_st (audio_packet_queue player)
     \<or> enough_packets_claimed video_st (video_packet_queue player)"

definition packet200 :: AVPacket where
  "packet200 = \<lparr>buf = True, size' = 100, duration = 200, stream_index = 1, pos = 0,
                opaque_ref = None\<rparr>"

definition player_audio_ahead :: ff_player where
  \<comment> \<open>both streams open; 11 audio packets of 0.2 s each are queued and no video packet\<close>
  "player_audio_ahead =
     player0\<lparr>audio_packet_queue :=
         \<lparr>packets = replicate 11 \<lparr>base = packet200, serial = 1\<rparr>, packet_count = 11,
          size' = 1276, duration = 2200, aborted = False, serial = 1\<rparr>,
       video_packet_queue :=
         \<lparr>packets = [], packet_count = 0, size' = 0, duration = 0, aborted = False,
          serial = 1\<rparr>\<rparr>"

text \<open>
  Claim C5 as stated fails: with 11 audio packets worth 2.2 s queued and an empty video
  queue, the audio queue has enough packets, so the claim has the reader suspend; the code
  asks that both streams have enough and goes on reading.
\<close>

theorem read_thread_waits_counterexample:
  "read_thread_waits player_audio_ahead = Some False
   \<and> reader_suspends_claimed player_audio_ahead stream0 stream0
   \<and> audio_stream player_audio_ahead = Some stream0
   \<and> video_stream player_audio_ahead = Some stream0"
  by (simp add: read_thread_waits_def player_audio_ahead_def player0_def
      stream_has_enough_packets_def reader_suspends_claimed_def enough_packets_claimed_def
      ff_packet_queue_get_size_def ff_packet_queue_get_aborted_def
      ff_packet_queue_get_packet_count_def ff_packet_queue_get_duration_def
      MAX_QUEUE_SIZE_def MIN_FRAMES_def stream0_def av_q2d_def
      AV_DISPOSITION_ATTACHED_PIC_def)

text \<open>What the code takes for a stream with enough packets.\<close>

definition enough_packets :: "AVStream option \<Rightarrow> int \<Rightarrow> ff_packet_queue \<Rightarrow> bool" where
  "enough_packets stream stream_id queue \<longleftrightarrow>
     stream_id < 0
     \<or> aborted queue
     \<or> (case stream of
          None \<Rightarrow> False
        | Some st \<Rightarrow>
            disposition st AND AV_DISPOSITION_ATTACHED_PIC \<noteq> 0
            \<or> packet_count queue > 10
              \<and> (ff_packet_queue.duration queue = 0
                 \<or> Fin 1 < av_q2d (time_base st)
                             * Fin (real_of_int (ff_packet_queue.duration queue))))"

lemma stream_has_enough_packets_eq:
  assumes "stream_id \<ge> 0 \<longrightarrow> stream \<noteq> None"
  shows "stream_has_enough_packets stream stream_id queue
           = Some (enough_packets stream stream_id queue)"
  using assms
  by (auto simp: stream_has_enough_packets_def enough_packets_def
      ff_packet_queue_get_aborted_def ff_packet_queue_get_packet_count_def
      ff_packet_queue_get_duration_def MIN_FRAMES_def split: option.splits)

lemma aggregate_size:
  fixes a b :: "64 word"
  assumes "unat a + unat b < 2 ^ 64"
  shows "word_of_int MAX_QUEUE_SIZE < a + b \<longleftrightarrow> 15 * 1024 * 1024 < unat a + unat b"
proof -
  have "unat (a + b) = unat a + unat b"
    using assms by (simp add: unat_add_lem [THEN iffD1])
  moreover have "unat (word_of_int MAX_QUEUE_SIZE :: 64 word) = 15 * 1024 * 1024"
    by (simp add: MAX_QUEUE_SIZE_def)
  ultimately show ?thesis
    by (simp add: word_less_nat_alt)
qed

text \<open>
  Claim C5, as the code has it. On each tick of its loop the reader suspends (waits up to
  10 ms on the continue condition variable and restarts the loop) exactly when the two
  queues' aggregate byte size exceeds 15 MiB or both streams have enough packets, where a
  stream has enough packets when it is not open, or its queue is aborted, or it is an
  attached picture, or its queue's packet count exceeds 10 and its queued duration is
  either 0 or more than 1 s of media. Here each open stream has its \<^verbatim>\<open>AVStream\<close>, and the
  sum of the two sizes is below \<open>2 ^ 64\<close>.
\<close>

theorem read_thread_waits_iff:
  assumes "audio_stream_index player \<ge> 0 \<longrightarrow> audio_stream player \<noteq> None"
    and "video_stream_index player \<ge> 0 \<longrightarrow> video_stream player \<noteq> None"
    and "unat (ff_packet_queue.size' (audio_packet_queue player))
           + unat (ff_packet_queue.size' (video_packet_queue player)) < 2 ^ 64"
  shows "read_thread_waits player =
     Some (unat (ff_packet_queue.size' (audio_packet_queue player))
             + unat (ff_packet_queue.size' (video_packet_queue player)) > 15 * 1024 * 1024
           \<or> enough_packets (audio_stream player) (audio_stream_index player)
                (audio_packet_queue player)
             \<and> enough_packets (video_stream player) (video_stream_index player)
                (video_packet_queue player))"
  unfolding read_thread_waits_def ff_packet_queue_get_size_def
    stream_has_enough_packets_eq [OF assms(1)] stream_has_enough_packets_eq [OF assms(2)]
    aggregate_size [OF assms(3)]
  by (simp split: bool.splits)

theorem read_thread_waits_iff_witness:
  "read_thread_waits player_audio_ahead = Some False
   \<and> read_thread_waits
        (player_audio_ahead\<lparr>video_packet_queue := audio_packet_queue player_audio_ahead\<rparr>)
      = Some True"
proof -
  define p2 where
    "p2 = player_audio_ahead\<lparr>video_packet_queue := audio_packet_queue player_audio_ahead\<rparr>"
  have streams: "audio_stream_index player_audio_ahead \<ge> 0 \<longrightarrow>
        audio_stream player_audio_ahead \<noteq> None"
      "video_stream_index player_audio_ahead \<ge> 0 \<longrightarrow>
        video_stream player_audio_ahead \<noteq> None"
      "audio_stream_index p2 \<ge> 0 \<longrightarrow> audio_stream p2 \<noteq> None"
      "video_stream_index p2 \<ge> 0 \<longrightarrow> video_stream p2 \<noteq> None"
    by (simp_all add: p2_def player_audio_ahead_def player0_def)
  have sizes: "unat (ff_packet_queue.size' (audio_packet_queue player_audio_ahead))
           + unat (ff_packet_queue.size' (video_packet_queue player_audio_ahead)) < 2 ^ 64"
      "unat (ff_packet_queue.size' (audio_packet_queue p2))
           + unat (ff_packet_queue.size' (video_packet_queue p2)) < 2 ^ 64"
    by (simp_all add: p2_def player_audio_ahead_def player0_def)
  show ?thesis
    using read_thread_waits_iff [OF streams(1,2) sizes(1)]
      read_thread_waits_iff [OF streams(3,4) sizes(2)]
    unfolding p2_def [symmetric]
    by (simp add: p2_def player_audio_ahead_def player0_def enough_packets_def stream0_def
        av_q2d_def AV_DISPOSITION_ATTACHED_PIC_def)
qed

subsection \<open>Audio drift correction\<close>

text \<open>
  The sample count in the words of claim C3, for a difference \<open>diff\<close> of the audio clock
  and the master clock. \<open>to_int\<close> is the conversion of \<open>diff * source_sample_rate\<close> to an
  integer (the claim has \<open>round\<close>) and \<open>usable\<close> is the condition on a finite difference
  under which it is taken into the average (the claim has none).
\<close>

definition wanted_samples_spec ::
  "(real \<Rightarrow> int) \<Rightarrow> (real \<Rightarrow> bool) \<Rightarrow> ff_player \<Rightarrow> int \<Rightarrow> double \<Rightarrow> int" where
  "wanted_samples_spec to_int usable player n diff =
     (if get_master_sync_type player = FF_AV_SYNC_AUDIO_MASTER then n
      else case (diff, audio_diff_cum player, audio_diff_avg_coef player,
                 audio_diff_threshold player) of
        (Fin x, Fin cum, Fin coef, Fin thr) \<Rightarrow>
          if usable x \<and> audio_diff_avg_count player \<ge> 20
             \<and> \<bar>(x + coef * cum) * (1 - coef)\<bar> \<ge> thr
          then av_clip (n + to_int (x * real_of_int (audio_source_freq player)))
                 (c_div (n * 90) 100) (c_div (n * 110) 100)
          else n
      | _ \<Rightarrow> n)"

definition player_drift :: ff_player where
  \<comment> \<open>the external clock is the master; the audio clock is 7/192000 s ahead of it, which
     is 1.75 samples at 48 kHz; 20 differences, all of them 0, have been averaged; the
     coefficient and the threshold are those \<^verbatim>\<open>stream_open\<close> sets\<close>
  "player_drift =
     player0\<lparr>av_sync_type := FF_AV_SYNC_EXTERNAL_CLOCK,
       audio_clock := running_clock (5 + 7 / 192000) 1 Audio_queue_serial,
       audio_diff_avg_count := 20\<rparr>"

lemma player_drift_diff:
  "ff_clock_get (mem_of player_drift) (audio_clock player_drift) 3000000
     - get_master_clock player_drift 3000000 = Fin (7 / 192000)"
  by (simp add: player_drift_def player0_def get_master_clock_def get_master_sync_type_def
      ff_clock_get_def mem_of_def running_clock_def queue1_def seconds_Fin)

lemma player_drift_master:
  "get_master_sync_type player_drift = FF_AV_SYNC_EXTERNAL_CLOCK"
  by (simp add: player_drift_def player0_def get_master_sync_type_def)

lemma player_drift_fields:
  "audio_diff_cum player_drift = Fin 0"
  "audio_diff_avg_coef player_drift = Fin (exp (ln (1 / 100) / 20))"
  "audio_diff_threshold player_drift = Fin 0" "audio_diff_avg_count player_drift = 20"
  "audio_source_freq player_drift = 48000"
  by (simp_all add: player_drift_def player0_def)

text \<open>
  Claim C3 as stated fails: the code converts \<open>diff * source_sample_rate\<close> with the cast
  \<^verbatim>\<open>(int)\<close>, which discards the fraction. With a difference of 1.75 samples and a nominal
  count of 1000 it returns 1001, where rounding gives 1002.
\<close>

theorem synchronize_audio_counterexample:
  "map_option fst (synchronize_audio player_drift 1000 3000000 3000000) = Some 1001
   \<and> wanted_samples_spec round (\<lambda>x. True) player_drift 1000 (Fin (7 / 192000)) = 1002"
proof -
  have "c_trunc (7 / 4) = 1" "round (7 / 4 :: real) = 2"
    by (simp_all add: c_trunc_def round_def)
  then show ?thesis
    unfolding synchronize_audio_def wanted_samples_spec_def player_drift_diff
      player_drift_master
    by (simp add: player_drift_fields Let_def AV_NOSYNC_THRESHOLD_def AUDIO_DIFF_AVG_NB_def
        double_to_int_def c_int_def INT_MIN_def INT_MAX_def SAMPLE_CORRECTION_PERCENT_MAX_def
        av_clip_def c_div_def)
qed

lemma c_trunc_abs_le: "\<bar>real_of_int (c_trunc a)\<bar> \<le> \<bar>a\<bar>"
proof (cases "0 \<le> a")
  case True
  then have "0 \<le> \<lfloor>a\<rfloor>" "real_of_int \<lfloor>a\<rfloor> \<le> a" by simp_all
  with True show ?thesis by (simp add: c_trunc_def)
next
  case False
  then have "\<lceil>a\<rceil> \<le> 0" "a \<le> real_of_int \<lceil>a\<rceil>"
    by (simp_all add: ceiling_le_iff)
  with False show ?thesis by (simp add: c_trunc_def)
qed

lemma double_to_int_defined:
  assumes "\<bar>x\<bar> < 10" and "\<bar>f\<bar> \<le> 100000000"
  shows "double_to_int (Fin x * Fin (real_of_int f)) = Some (c_trunc (x * real_of_int f))"
    and "\<bar>c_trunc (x * real_of_int f)\<bar> \<le> 1000000000"
proof -
  have "\<bar>x * real_of_int f\<bar> = \<bar>x\<bar> * \<bar>real_of_int f\<bar>"
    by (simp add: abs_mult)
  also have "\<dots> \<le> 10 * 100000000"
    using assms by (intro mult_mono) simp_all
  finally have "\<bar>real_of_int (c_trunc (x * real_of_int f))\<bar> \<le> 1000000000"
    using c_trunc_abs_le [of "x * real_of_int f"] by simp
  then show bound: "\<bar>c_trunc (x * real_of_int f)\<bar> \<le> 1000000000"
    by linarith
  have "INT_MIN \<le> c_trunc (x * real_of_int f) \<and> c_trunc (x * real_of_int f) \<le> INT_MAX"
    unfolding INT_MIN_def INT_MAX_def using bound by linarith
  then show "double_to_int (Fin x * Fin (real_of_int f)) = Some (c_trunc (x * real_of_int f))"
    by (simp add: double_to_int_def c_int_def)
qed

lemma synchronize_audio_result:
  assumes "synchronize_audio player n t_audio t_master = Some (w, player')"
  shows "w = wanted_samples_spec c_trunc (\<lambda>x. \<bar>x\<bar> < 10) player n
               (ff_clock_get (mem_of player) (audio_clock player) t_audio
                  - get_master_clock player t_master)"
proof -
  define diff where "diff = ff_clock_get (mem_of player) (audio_clock player) t_audio
      - get_master_clock player t_master"
  show ?thesis
  proof (cases "get_master_sync_type player = FF_AV_SYNC_AUDIO_MASTER")
    case True
    with assms show ?thesis
      by (simp add: synchronize_audio_def wanted_samples_spec_def)
  next
    case False
    show ?thesis
    proof (cases diff)
      case NaN
      with assms False show ?thesis
        by (simp add: synchronize_audio_def wanted_samples_spec_def diff_def [symmetric])
    next
      case (Fin x)
      with assms False show ?thesis
        unfolding synchronize_audio_def wanted_samples_spec_def diff_def [symmetric] Let_def
        by (cases "audio_diff_cum player"; cases "audio_diff_avg_coef player";
            cases "audio_diff_threshold player")
          (auto simp: AV_NOSYNC_THRESHOLD_def AUDIO_DIFF_AVG_NB_def double_to_int_def
            c_int_def SAMPLE_CORRECTION_PERCENT_MAX_def
            split: if_splits option.splits)
    qed
  qed
qed

lemma synchronize_audio_state:
  assumes "synchronize_audio player n t_audio t_master = Some (w, player')"
  defines "diff \<equiv> ff_clock_get (mem_of player) (audio_clock player) t_audio
      - get_master_clock player t_master"
  shows "audio_diff_cum player' =
           (if get_master_sync_type player = FF_AV_SYNC_AUDIO_MASTER then audio_diff_cum player
            else if \<not> isnan diff \<and> fabs diff < AV_NOSYNC_THRESHOLD
            then diff + audio_diff_avg_coef player * audio_diff_cum player
            else Fin 0)"
    and "audio_diff_avg_count player' =
           (if get_master_sync_type player = FF_AV_SYNC_AUDIO_MASTER
            then audio_diff_avg_count player
            else if \<not> isnan diff \<and> fabs diff < AV_NOSYNC_THRESHOLD
            then (if audio_diff_avg_count player < 20 then audio_diff_avg_count player + 1
                  else audio_diff_avg_count player)
            else 0)"
  using assms(1)
  unfolding synchronize_audio_def diff_def [symmetric] Let_def
  by (auto simp: AUDIO_DIFF_AVG_NB_def split: if_splits option.splits)

lemma synchronize_audio_defined:
  assumes "0 \<le> n" and "n \<le> 10000000" and "\<bar>audio_source_freq player\<bar> \<le> 100000000"
  shows "synchronize_audio player n t_audio t_master \<noteq> None"
proof -
  define diff where "diff = ff_clock_get (mem_of player) (audio_clock player) t_audio
      - get_master_clock player t_master"
  have lo: "c_int (n * (100 - SAMPLE_CORRECTION_PERCENT_MAX)) = Some (n * 90)"
    and hi: "c_int (n * (100 + SAMPLE_CORRECTION_PERCENT_MAX)) = Some (n * 110)"
    using assms(1,2)
    by (simp_all add: c_int_def INT_MIN_def INT_MAX_def SAMPLE_CORRECTION_PERCENT_MAX_def)
  show ?thesis
  proof (cases diff)
    case NaN
    then show ?thesis
      by (simp add: synchronize_audio_def diff_def [symmetric])
  next
    case (Fin x)
    show ?thesis
    proof (cases "\<bar>x\<bar> < 10")
      case True
      define k where "k = c_trunc (x * real_of_int (audio_source_freq player))"
      have conv: "double_to_int (Fin x * Fin (real_of_int (audio_source_freq player))) = Some k"
        and "\<bar>k\<bar> \<le> 1000000000"
        using double_to_int_defined [OF True assms(3)] by (simp_all add: k_def)
      then have "INT_MIN \<le> n + k \<and> n + k \<le> INT_MAX"
        unfolding INT_MIN_def INT_MAX_def using assms(1,2) by linarith
      then have "c_int (n + k) = Some (n + k)"
        by (simp add: c_int_def)
      with Fin conv lo hi show ?thesis
        unfolding synchronize_audio_def diff_def [symmetric] Let_def
        by simp
    next
      case False
      with Fin show ?thesis
        by (simp add: synchronize_audio_def diff_def [symmetric] AV_NOSYNC_THRESHOLD_def)
    qed
  qed
qed

text \<open>
  Claim C3, as the code has it. When \<^verbatim>\<open>stream_open\<close> opens the audio stream it sets the
  coefficient to \<open>exp(ln 0.01 / 20)\<close>. When the effective master is not audio,
  \<^verbatim>\<open>synchronize_audio\<close> takes \<open>diff = audio_clock - master_clock\<close>; if \<open>diff\<close> is NaN or
  \<open>|diff| \<ge> 10\<close> (\<^verbatim>\<open>AV_NOSYNC_THRESHOLD\<close>) it resets the average and its counter,
  otherwise it updates the average, \<open>cum := diff + coef * cum\<close>, and counts the observation
  while fewer than 20 were counted. Once 20 were counted, and \<open>|diff| < 10\<close>, and
  \<open>|avg_diff| \<ge> audio_diff_threshold\<close> for \<open>avg_diff = cum * (1 - coef)\<close>, it returns the
  nominal sample count plus \<open>diff * source_sample_rate\<close> with the fraction discarded
  (truncated towards zero), clamped to [90%, 110%] of the nominal count; in every other
  case, and whenever the master is audio, it returns the nominal count unchanged. It
  returns for every nominal count from 0 to \<open>10^7\<close> and every sample rate up to \<open>10^8\<close>
  in absolute value, where the integer arithmetic cannot overflow.
\<close>

theorem synchronize_audio_cases:
  "(synchronize_audio player n t_audio t_master = Some (w, player') \<longrightarrow>
      w = wanted_samples_spec c_trunc (\<lambda>x. \<bar>x\<bar> < 10) player n
            (ff_clock_get (mem_of player) (audio_clock player) t_audio
               - get_master_clock player t_master)
      \<and> audio_diff_cum player' =
          (if get_master_sync_type player = FF_AV_SYNC_AUDIO_MASTER then audio_diff_cum player
           else if \<not> isnan (ff_clock_get (mem_of player) (audio_clock player) t_audio
                               - get_master_clock player t_master)
                   \<and> fabs (ff_clock_get (mem_of player) (audio_clock player) t_audio
                               - get_master_clock player t_master) < AV_NOSYNC_THRESHOLD
           then (ff_clock_get (mem_of player) (audio_clock player) t_audio
                   - get_master_clock player t_master)
                + audio_diff_avg_coef player * audio_diff_cum player
           else Fin 0)
      \<and> audio_diff_avg_count player' =
          (if get_master_sync_type player = FF_AV_SYNC_AUDIO_MASTER
           then audio_diff_avg_count player
           else if \<not> isnan (ff_clock_get (mem_of player) (audio_clock player) t_audio
                               - get_master_clock player t_master)
                   \<and> fabs (ff_clock_get (mem_of player) (audio_clock player) t_audio
                               - get_master_clock player t_master) < AV_NOSYNC_THRESHOLD
           then (if audio_diff_avg_count player < 20 then audio_diff_avg_count player + 1
                 else audio_diff_avg_count player)
           else 0))
   \<and> (0 \<le> n \<and> n \<le> 10000000 \<and> \<bar>audio_source_freq player\<bar> \<le> 100000000 \<longrightarrow>
        synchronize_audio player n t_audio t_master \<noteq> None)
   \<and> audio_diff_avg_coef (stream_open_audio_diff player hw_buf_size bytes_per_sec)
        = Fin (exp (ln (1 / 100) / 20))"
proof (intro conjI impI)
  assume ret: "synchronize_audio player n t_audio t_master = Some (w, player')"
  from synchronize_audio_result [OF ret]
  show "w = wanted_samples_spec c_trunc (\<lambda>x. \<bar>x\<bar> < 10) player n
            (ff_clock_get (mem_of player) (audio_clock player) t_audio
               - get_master_clock player t_master)" .
  from synchronize_audio_state(1) [OF ret]
  show "audio_diff_cum player' =
          (if get_master_sync_type player = FF_AV_SYNC_AUDIO_MASTER then audio_diff_cum player
           else if \<not> isnan (ff_clock_get (mem_of player) (audio_clock player) t_audio
                               - get_master_clock player t_master)
                   \<and> fabs (ff_clock_get (mem_of player) (audio_clock player) t_audio
                               - get_master_clock player t_master) < AV_NOSYNC_THRESHOLD
           then (ff_clock_get (mem_of player) (audio_clock player) t_audio
                   - get_master_clock player t_master)
                + audio_diff_avg_coef player * audio_diff_cum player
           else Fin 0)" .
  from synchronize_audio_state(2) [OF ret]
  show "audio_diff_avg_count player' =
          (if get_master_sync_type player = FF_AV_SYNC_AUDIO_MASTER
           then audio_diff_avg_count player
           else if \<not> isnan (ff_clock_get (mem_of player) (audio_clock player) t_audio
                               - get_master_clock player t_master)
                   \<and> fabs (ff_clock_get (mem_of player) (audio_clock player) t_audio
                               - get_master_clock player t_master) < AV_NOSYNC_THRESHOLD
           then (if audio_diff_avg_count player < 20 then audio_diff_avg_count player + 1
                 else audio_diff_avg_count player)
           else 0)" .
next
  assume "0 \<le> n \<and> n \<le> 10000000 \<and> \<bar>audio_source_freq player\<bar> \<le> 100000000"
  then show "synchronize_audio player n t_audio t_master \<noteq> None"
    by (simp add: synchronize_audio_defined)
next
  show "audio_diff_avg_coef (stream_open_audio_diff player hw_buf_size bytes_per_sec)
        = Fin (exp (ln (1 / 100) / 20))"
    by (simp add: stream_open_audio_diff_def AUDIO_DIFF_AVG_NB_def)
qed

theorem synchronize_audio_cases_witness:
  "map_option fst (synchronize_audio player_drift 1000 3000000 3000000) = Some 1001
   \<and> map_option (audio_diff_avg_count \<circ> snd) (synchronize_audio player_drift 1000 3000000 3000000)
       = Some 20"
proof -
  have "0 \<le> (1000 :: int) \<and> (1000 :: int) \<le> 10000000
      \<and> \<bar>audio_source_freq player_drift\<bar> \<le> 100000000"
    by (simp add: player_drift_fields)
  with synchronize_audio_cases [of player_drift 1000 3000000 3000000]
  obtain w player' where ret: "synchronize_audio player_drift 1000 3000000 3000000
      = Some (w, player')"
    by fastforce
  have "c_trunc (7 / 4) = 1"
    by (simp add: c_trunc_def)
  with synchronize_audio_cases [of player_drift 1000 3000000 3000000 w player'] ret
  have "w = 1001" "audio_diff_avg_count player' = 20"
    unfolding player_drift_diff player_drift_master wanted_samples_spec_def
    by (simp_all add: player_drift_fields av_clip_def c_div_def AV_NOSYNC_THRESHOLD_def)
  with ret show ?thesis by simp
qed

section \<open>decoder.c\<close>

datatype AVMediaType = AVMEDIA_TYPE_VIDEO | AVMEDIA_TYPE_AUDIO | AVMEDIA_TYPE_OTHER

definition AV_NOPTS_VALUE :: int where
  "AV_NOPTS_VALUE = INT64_MIN"

definition AVERROR_EOF :: int where
  \<comment> \<open>\<^verbatim>\<open>FFERRTAG('E','O','F',' ')\<close>\<close>
  "AVERROR_EOF = - 541478725"

record AVFrame =
  pts :: int
  best_effort_timestamp :: int
  pkt_dts :: int
  sample_rate :: int
  nb_samples :: int

text \<open>
  Of the codec context the decoder reads \<open>codec_type\<close> and \<open>pkt_timebase\<close>; \<open>packet\<close> is
  the packet slot the decoder owns.
\<close>

record ff_decoder =
  packet :: AVPacket
  codec_type :: AVMediaType
  pkt_timebase :: AVRational
  packet_serial :: int
  finished :: int
  packet_pending :: bool
  start_pts :: int
  start_pts_time_base :: AVRational
  next_pts :: int
  next_pts_tb :: AVRational
  reorder_pts :: bool

definition blank_packet :: AVPacket where
  \<comment> \<open>the packet \<^verbatim>\<open>av_packet_unref\<close> leaves\<close>
  "blank_packet = \<lparr>buf = False, size' = 0, duration = 0, stream_index = 0, pos = - 1,
                    opaque_ref = None\<rparr>"

text \<open>
  \<^verbatim>\<open>ff_decoder_decode\<close> runs against the codec and against a packet queue that other
  threads fill, flush and abort. What those answer is given as a list, in the order of the
  calls; an \<open>answer\<close> is the result of one call:
  \<^item> \<open>Serial\<close>, \<open>Aborted\<close>, \<open>Packet_count\<close>: what \<^verbatim>\<open>ff_packet_queue_get_serial\<close>,
    \<^verbatim>\<open>ff_packet_queue_get_aborted\<close> and \<^verbatim>\<open>ff_packet_queue_get_packet_count\<close> read;
  \<^item> \<open>Got\<close>: the blocking \<^verbatim>\<open>ff_packet_queue_get\<close>, which returns the abort signal
    (\<open>None\<close>) or a packet with the serial stamped on it;
  \<^item> \<open>Received\<close>: the value \<^verbatim>\<open>avcodec_receive_frame\<close> returns and the frame it leaves;
  \<^item> \<open>Allocated\<close>: whether \<^verbatim>\<open>av_buffer_allocz\<close> succeeds;
  \<^item> \<open>Sent\<close>: the value \<^verbatim>\<open>avcodec_send_packet\<close> returns.
\<close>

datatype answer =
  Serial int
  | Aborted bool
  | Packet_count int
  | Got "(AVPacket \<times> int) option"
  | Received int AVFrame
  | Allocated bool
  | Sent int

text \<open>What the decoder does to the codec and to the reader's condition variable.\<close>

datatype action =
  Receive_frame int
  | Flush_buffers
  | Send_packet AVPacket int
  | Signal_empty_queue

text \<open>
  A call returns a value, or is still inside a call to the codec or the queue when the
  answers end (\<open>Blocked\<close>), or runs into the signed overflow of
  \<^verbatim>\<open>frame->pts + frame->nb_samples\<close> (\<open>Overflow\<close>). The rescaling of time stamps,
  \<^verbatim>\<open>av_rescale_q\<close> of libavutil, is an argument of the model.
\<close>

datatype decode_outcome = Return int | Blocked | Overflow

definition video_frame_pts :: "ff_decoder \<Rightarrow> int \<Rightarrow> AVFrame \<Rightarrow> AVFrame" where
  "video_frame_pts decoder ret frame =
     (if ret \<ge> 0
      then (if reorder_pts decoder then frame\<lparr>AVFrame.pts := best_effort_timestamp frame\<rparr>
            else frame\<lparr>AVFrame.pts := pkt_dts frame\<rparr>)
      else frame)"

definition audio_frame_pts ::
  "(int \<Rightarrow> AVRational \<Rightarrow> AVRational \<Rightarrow> int) \<Rightarrow> ff_decoder \<Rightarrow> int \<Rightarrow> AVFrame
     \<Rightarrow> (ff_decoder \<times> AVFrame) option" where
  "audio_frame_pts av_rescale_q decoder ret frame =
     (if ret \<ge> 0
      then let time_base = \<lparr>num = 1, den = sample_rate frame\<rparr>;
               frame =
                 (if AVFrame.pts frame \<noteq> AV_NOPTS_VALUE
                  then frame\<lparr>AVFrame.pts :=
                         av_rescale_q (AVFrame.pts frame) (pkt_timebase decoder) time_base\<rparr>
                  else if next_pts decoder \<noteq> AV_NOPTS_VALUE
                  then frame\<lparr>AVFrame.pts :=
                         av_rescale_q (next_pts decoder) (next_pts_tb decoder) time_base\<rparr>
                  else frame)
           in if AVFrame.pts frame \<noteq> AV_NOPTS_VALUE
              then (case c_int64 (AVFrame.pts frame + nb_samples frame) of
                      None \<Rightarrow> None
                    | Some n \<Rightarrow> Some (decoder\<lparr>next_pts := n, next_pts_tb := time_base\<rparr>, frame))
              else Some (decoder, frame)
      else Some (decoder, frame))"

datatype receive_step =
  No_answer
  | Overflowed
  | Stepped int ff_decoder AVFrame "action list" "answer list"

definition codec_receive ::
  "(int \<Rightarrow> AVRational \<Rightarrow> AVRational \<Rightarrow> int) \<Rightarrow> ff_decoder \<Rightarrow> AVFrame \<Rightarrow> int
     \<Rightarrow> answer list \<Rightarrow> receive_step" where
  "codec_receive av_rescale_q decoder frame ret answers =
     (case codec_type decoder of
        AVMEDIA_TYPE_VIDEO \<Rightarrow>
          (case answers of
             Received r fr # rest \<Rightarrow>
               Stepped r decoder (video_frame_pts decoder r fr) [Receive_frame r] rest
           | _ \<Rightarrow> No_answer)
      | AVMEDIA_TYPE_AUDIO \<Rightarrow>
          (case answers of
             Received r fr # rest \<Rightarrow>
               (case audio_frame_pts av_rescale_q decoder r fr of
                  None \<Rightarrow> Overflowed
                | Some (decoder', fr') \<Rightarrow> Stepped r decoder' fr' [Receive_frame r] rest)
           | _ \<Rightarrow> No_answer)
      | AVMEDIA_TYPE_OTHER \<Rightarrow> Stepped ret decoder frame [] answers)"

lemma codec_receive_length:
  "codec_receive rs d frame ret answers = Stepped r d' fr' acts rest
   \<Longrightarrow> length rest \<le> length answers"
  by (auto simp: codec_receive_def split: AVMediaType.splits list.splits answer.splits
      option.splits)

datatype phase =
  Done decode_outcome ff_decoder AVFrame "action list"
  | Next int ff_decoder AVFrame "action list" "answer list"

function receive_loop ::
  "(int \<Rightarrow> AVRational \<Rightarrow> AVRational \<Rightarrow> int) \<Rightarrow> ff_decoder \<Rightarrow> AVFrame \<Rightarrow> int
     \<Rightarrow> action list \<Rightarrow> answer list \<Rightarrow> phase" where
  "receive_loop av_rescale_q decoder frame ret trace answers =
     (case answers of
        Aborted ab # answers1 \<Rightarrow>
          if ab then Done (Return (- 1)) decoder frame trace
          else (case codec_receive av_rescale_q decoder frame ret answers1 of
                  No_answer \<Rightarrow> Done Blocked decoder frame trace
                | Overflowed \<Rightarrow> Done Overflow decoder frame trace
                | Stepped ret' decoder' frame' acts answers2 \<Rightarrow>
                    if ret' = AVERROR_EOF
                    then Done (Return 0) (decoder'\<lparr>finished := packet_serial decoder'\<rparr>) frame'
                           (trace @ acts @ [Flush_buffers])
                    else if ret' \<ge> 0 then Done (Return 1) decoder' frame' (trace @ acts)
                    else if ret' \<noteq> AVERROR EAGAIN
                    then receive_loop av_rescale_q decoder' frame' ret' (trace @ acts) answers2
                    else Next ret' decoder' frame' (trace @ acts) answers2)
      | _ \<Rightarrow> Done Blocked decoder frame trace)"
  by pat_completeness auto
termination
  by (relation "measure (\<lambda>(rs, d, frame, ret, trace, answers). length answers)")
    (auto dest: codec_receive_length)

datatype fetch_step =
  No_packet
  | Aborted_queue
  | Taken ff_decoder "action list" "answer list"

text \<open>
  The decoder takes its pending packet, or the next packet of the queue with
  \<^verbatim>\<open>ff_packet_queue_get(queue, packet, 1, &packet_serial)\<close>, which blocks: it answers
  with the abort signal or with a packet and the serial stamped on it.
\<close>

definition next_packet :: "ff_decoder \<Rightarrow> action list \<Rightarrow> answer list \<Rightarrow> fetch_step" where
  "next_packet decoder trace answers =
     (if packet_pending decoder then Taken (decoder\<lparr>packet_pending := False\<rparr>) trace answers
      else case answers of
        Got None # rest \<Rightarrow> Aborted_queue
      | Got (Some (pkt, serial')) # rest \<Rightarrow>
          let old_serial = packet_serial decoder;
              decoder = decoder\<lparr>packet := pkt, packet_serial := serial'\<rparr>
          in if old_serial \<noteq> packet_serial decoder
             then Taken (decoder\<lparr>finished := 0, next_pts := start_pts decoder,
                           next_pts_tb := start_pts_time_base decoder\<rparr>)
                    (trace @ [Flush_buffers]) rest
             else Taken decoder trace rest
      | _ \<Rightarrow> No_packet)"

lemma next_packet_length:
  "next_packet d trace answers = Taken d' trace' rest \<Longrightarrow> length rest \<le> length answers"
  by (auto simp: next_packet_def Let_def split: if_splits list.splits answer.splits
      option.splits)

datatype fetch_phase =
  Fetch_done decode_outcome ff_decoder "action list"
  | Fetched ff_decoder "action list" "answer list"

function fetch_loop :: "ff_decoder \<Rightarrow> action list \<Rightarrow> answer list \<Rightarrow> fetch_phase" where
  "fetch_loop decoder trace answers =
     (case answers of
        Packet_count n # answers1 \<Rightarrow>
          (case next_packet decoder (if n = 0 then trace @ [Signal_empty_queue] else trace)
                  answers1 of
             No_packet \<Rightarrow>
               Fetch_done Blocked decoder (if n = 0 then trace @ [Signal_empty_queue] else trace)
           | Aborted_queue \<Rightarrow>
               Fetch_done (Return (- 1)) decoder
                 (if n = 0 then trace @ [Signal_empty_queue] else trace)
           | Taken decoder' trace' answers2 \<Rightarrow>
               (case answers2 of
                  Serial s # answers3 \<Rightarrow>
                    if s = packet_serial decoder' then Fetched decoder' trace' answers3
                    else fetch_loop (decoder'\<lparr>packet := blank_packet\<rparr>) trace' answers3
                | _ \<Rightarrow> Fetch_done Blocked decoder' trace'))
      | _ \<Rightarrow> Fetch_done Blocked decoder trace)"
  by pat_completeness auto
termination
  by (relation "measure (\<lambda>(d, trace, answers). length answers)")
    (auto dest: next_packet_length)

datatype attach_step =
  No_alloc_answer
  | Alloc_failed
  | Attached ff_decoder "answer list"

definition attach_frame_data :: "ff_decoder \<Rightarrow> answer list \<Rightarrow> attach_step" where
  "attach_frame_data decoder answers =
     (if buf (packet decoder) \<and> opaque_ref (packet decoder) = None
      then case answers of
        Allocated ok # rest \<Rightarrow>
          if ok
          then Attached (decoder\<lparr>packet :=
                  (packet decoder)\<lparr>opaque_ref := Some (pos (packet decoder))\<rparr>\<rparr>) rest
          else Alloc_failed
      | _ \<Rightarrow> No_alloc_answer
      else Attached decoder answers)"

lemma attach_frame_data_length:
  "attach_frame_data d answers = Attached d' rest \<Longrightarrow> length rest \<le> length answers"
  by (auto simp: attach_frame_data_def split: if_splits list.splits answer.splits)

lemma receive_loop_length:
  "receive_loop rs d frame ret trace answers = Next ret' d' frame' trace' rest
   \<Longrightarrow> length rest \<le> length answers"
proof (induction rs d frame ret trace answers rule: receive_loop.induct)
  case (1 rs d frame ret trace answers)
  show ?case
  proof (cases answers)
    case Nil
    with "1.prems" show ?thesis by simp
  next
    case (Cons a answers1)
    show ?thesis
    proof (cases a)
      case (Aborted ab)
      show ?thesis
      proof (cases "codec_receive rs d frame ret answers1")
        case (Stepped r d1 fr1 acts answers2)
        from codec_receive_length [OF this] have le: "length answers2 \<le> length answers1" .
        show ?thesis
        proof (cases "\<not> ab \<and> r \<noteq> AVERROR_EOF \<and> \<not> r \<ge> 0 \<and> r \<noteq> AVERROR EAGAIN")
          case True
          with "1.prems" Cons Aborted Stepped
          have "receive_loop rs d1 fr1 r (trace @ acts) answers2
              = Next ret' d' frame' trace' rest"
            by simp
          with "1.IH" [OF Cons Aborted _ Stepped] True
          have "length rest \<le> length answers2" by simp
          with le Cons show ?thesis by simp
        next
          case False
          with "1.prems" Cons Aborted Stepped le show ?thesis
            by (auto split: if_splits)
        qed
      qed (use "1.prems" Cons Aborted in \<open>auto split: if_splits\<close>)
    qed (use "1.prems" Cons in auto)
  qed
qed

lemma fetch_loop_length:
  "fetch_loop d trace answers = Fetched d' trace' rest \<Longrightarrow> length rest \<le> length answers"
proof (induction d trace answers rule: fetch_loop.induct)
  case (1 d trace answers)
  show ?case
  proof (cases answers)
    case Nil
    with "1.prems" show ?thesis by simp
  next
    case (Cons a answers1)
    show ?thesis
    proof (cases a)
      case (Packet_count n)
      define trace1 where "trace1 = (if n = 0 then trace @ [Signal_empty_queue] else trace)"
      show ?thesis
      proof (cases "next_packet d trace1 answers1")
        case (Taken d1 trace2 answers2)
        from next_packet_length [OF this] have le: "length answers2 \<le> length answers1" .
        show ?thesis
        proof (cases answers2)
          case Nil
          with "1.prems" Cons Packet_count Taken show ?thesis
            by (simp add: trace1_def)
        next
          case inner: (Cons b answers3)
          show ?thesis
          proof (cases b)
            case (Serial s)
            show ?thesis
            proof (cases "s = packet_serial d1")
              case True
              with "1.prems" Cons Packet_count Taken inner Serial le show ?thesis
                by (simp add: trace1_def)
            next
              case False
              with "1.prems" Cons Packet_count Taken inner Serial
              have "fetch_loop (d1\<lparr>packet := blank_packet\<rparr>) trace2 answers3
                  = Fetched d' trace' rest"
                by (simp add: trace1_def)
              with "1.IH" [OF Cons Packet_count _ inner Serial False] Taken
              have "length rest \<le> length answers3"
                by (simp add: trace1_def)
              with le Cons inner show ?thesis by simp
            qed
          qed (use "1.prems" Cons Packet_count Taken inner in \<open>auto simp: trace1_def\<close>)
        qed
      qed (use "1.prems" Cons Packet_count in \<open>auto simp: trace1_def\<close>)
    qed (use "1.prems" Cons in auto)
  qed
qed

declare receive_loop.simps [simp del] fetch_loop.simps [simp del]

text \<open>
  The body of \<^verbatim>\<open>for (;;)\<close> in \<^verbatim>\<open>ff_decoder_decode\<close>. The result is how the call
  ends, the decoder and the frame it leaves, and what it did to the codec. \<open>Blocked\<close>
  says that the answers were used up (or do not fit the call reached) before the function
  returned.
\<close>

function decode_loop ::
  "(int \<Rightarrow> AVRational \<Rightarrow> AVRational \<Rightarrow> int) \<Rightarrow> ff_decoder \<Rightarrow> AVFrame \<Rightarrow> int
     \<Rightarrow> action list \<Rightarrow> answer list
     \<Rightarrow> decode_outcome \<times> ff_decoder \<times> AVFrame \<times> action list" where
  "decode_loop av_rescale_q decoder frame ret trace answers =
     (case answers of
        Serial s # answers1 \<Rightarrow>
          (case (if s = packet_serial decoder
                 then receive_loop av_rescale_q decoder frame ret trace answers1
                 else Next ret decoder frame trace answers1) of
             Done outcome decoder' frame' trace' \<Rightarrow> (outcome, decoder', frame', trace')
           | Next ret1 decoder1 frame1 trace1 answers2 \<Rightarrow>
               (case fetch_loop decoder1 trace1 answers2 of
                  Fetch_done outcome decoder' trace' \<Rightarrow> (outcome, decoder', frame1, trace')
                | Fetched decoder2 trace2 answers3 \<Rightarrow>
                    (case attach_frame_data decoder2 answers3 of
                       No_alloc_answer \<Rightarrow> (Blocked, decoder2, frame1, trace2)
                     | Alloc_failed \<Rightarrow> (Return (AVERROR ENOMEM), decoder2, frame1, trace2)
                     | Attached decoder3 answers4 \<Rightarrow>
                         (case answers4 of
                            Sent r # answers5 \<Rightarrow>
                              decode_loop av_rescale_q
                                (if r = AVERROR EAGAIN then decoder3\<lparr>packet_pending := True\<rparr>
                                 else decoder3\<lparr>packet := blank_packet\<rparr>)
                                frame1 ret1 (trace2 @ [Send_packet (packet decoder3) r]) answers5
                          | _ \<Rightarrow> (Blocked, decoder3, frame1, trace2)))))
      | _ \<Rightarrow> (Blocked, decoder, frame, trace))"
  by pat_completeness auto
termination
  by (relation "measure (\<lambda>(rs, d, frame, ret, trace, answers). length answers)")
    (auto split: if_splits
      dest!: receive_loop_length fetch_loop_length attach_frame_data_length)

definition ff_decoder_decode ::
  "(int \<Rightarrow> AVRational \<Rightarrow> AVRational \<Rightarrow> int) \<Rightarrow> ff_decoder \<Rightarrow> AVFrame \<Rightarrow> answer list
     \<Rightarrow> decode_outcome \<times> ff_decoder \<times> AVFrame \<times> action list" where
  "ff_decoder_decode av_rescale_q decoder frame answers =
     decode_loop av_rescale_q decoder frame (AVERROR EAGAIN) [] answers"

declare decode_loop.simps [simp del]

section \<open>End of stream in the decoder\<close>

lemma AVERROR_EOF_negative: "AVERROR_EOF < 0"
  by (simp add: AVERROR_EOF_def)

lemma codec_receive_acts:
  "codec_receive rs d frame ret answers = Stepped r d' fr' acts rest
   \<Longrightarrow> acts = [Receive_frame r] \<or> acts = []"
  by (auto simp: codec_receive_def split: AVMediaType.splits list.splits answer.splits
      option.splits)

lemma receive_loop_Next:
  "Receive_frame AVERROR_EOF \<notin> set trace
   \<Longrightarrow> receive_loop rs d frame ret trace answers = Next ret' d' frame' trace' rest
   \<Longrightarrow> Receive_frame AVERROR_EOF \<notin> set trace'"
proof (induction rs d frame ret trace answers rule: receive_loop.induct)
  case (1 rs d frame ret trace answers)
  note run = "1.prems"(2) [unfolded receive_loop.simps [of rs d frame ret trace answers]]
  show ?case
  proof (cases answers)
    case Nil
    with run show ?thesis by simp
  next
    case (Cons a answers1)
    show ?thesis
    proof (cases a)
      case (Aborted ab)
      show ?thesis
      proof (cases "codec_receive rs d frame ret answers1")
        case (Stepped r d1 fr1 acts answers2)
        from codec_receive_acts [OF this] have acts: "acts = [Receive_frame r] \<or> acts = []" .
        show ?thesis
        proof (cases "\<not> ab \<and> r \<noteq> AVERROR_EOF \<and> \<not> r \<ge> 0 \<and> r \<noteq> AVERROR EAGAIN")
          case True
          with run Cons Aborted Stepped
          have "receive_loop rs d1 fr1 r (trace @ acts) answers2
              = Next ret' d' frame' trace' rest"
            by simp
          moreover have "Receive_frame AVERROR_EOF \<notin> set (trace @ acts)"
            using "1.prems"(1) acts True by auto
          ultimately show ?thesis
            using "1.IH" [OF Cons Aborted _ Stepped] True by simp
        next
          case False
          with run Cons Aborted Stepped acts "1.prems"(1) show ?thesis
            by (auto split: if_splits)
        qed
      qed (use run Cons Aborted in \<open>auto split: if_splits\<close>)
    qed (use run Cons in auto)
  qed
qed

lemma receive_loop_Done:
  "Receive_frame AVERROR_EOF \<notin> set trace
   \<Longrightarrow> receive_loop rs d frame ret trace answers = Done outcome d' frame' trace'
   \<Longrightarrow> outcome \<noteq> Return AVERROR_EOF
       \<and> (Receive_frame AVERROR_EOF \<in> set trace' \<longrightarrow>
            outcome = Return 0 \<and> finished d' = packet_serial d'
            \<and> (\<exists>before. trace' = before @ [Receive_frame AVERROR_EOF, Flush_buffers]))"
proof (induction rs d frame ret trace answers rule: receive_loop.induct)
  case (1 rs d frame ret trace answers)
  note run = "1.prems"(2) [unfolded receive_loop.simps [of rs d frame ret trace answers]]
  note clean = "1.prems"(1)
  show ?case
  proof (cases answers)
    case Nil
    with run clean show ?thesis by auto
  next
    case (Cons a answers1)
    show ?thesis
    proof (cases a)
      case (Aborted ab)
      show ?thesis
      proof (cases ab)
        case True
        with run clean Cons Aborted show ?thesis
          by (auto simp: AVERROR_EOF_def)
      next
        case running: False
        show ?thesis
        proof (cases "codec_receive rs d frame ret answers1")
          case (Stepped r d1 fr1 acts answers2)
          from codec_receive_acts [OF this]
          have acts: "acts = [Receive_frame r] \<or> acts = []" .
          consider (eof) "r = AVERROR_EOF" | (frame) "r \<noteq> AVERROR_EOF" "r \<ge> 0"
            | (again) "r \<noteq> AVERROR_EOF" "\<not> r \<ge> 0" "r = AVERROR EAGAIN"
            | (error) "r \<noteq> AVERROR_EOF" "\<not> r \<ge> 0" "r \<noteq> AVERROR EAGAIN"
            by blast
          then show ?thesis
          proof cases
            case eof
            with run Cons Aborted running Stepped
            have res: "outcome = Return 0" "d' = d1\<lparr>finished := packet_serial d1\<rparr>"
              "trace' = trace @ acts @ [Flush_buffers]"
              by simp_all
            from acts show ?thesis
            proof
              assume "acts = [Receive_frame r]"
              with res eof show ?thesis by (simp add: AVERROR_EOF_def)
            next
              assume "acts = []"
              with res clean show ?thesis by (simp add: AVERROR_EOF_def)
            qed
          next
            case frame
            with run Cons Aborted running Stepped
            have "outcome = Return 1" "trace' = trace @ acts"
              by simp_all
            with acts clean frame show ?thesis
              by (auto simp: AVERROR_EOF_def)
          next
            case again
            with run Cons Aborted running Stepped show ?thesis by simp
          next
            case error
            with run Cons Aborted running Stepped
            have "receive_loop rs d1 fr1 r (trace @ acts) answers2
                = Done outcome d' frame' trace'"
              by simp
            moreover have "Receive_frame AVERROR_EOF \<notin> set (trace @ acts)"
              using clean acts error by auto
            ultimately show ?thesis
              using "1.IH" [OF Cons Aborted running Stepped] error by simp
          qed
        qed (use run clean Cons Aborted running in \<open>auto split: if_splits\<close>)
      qed
    qed (use run clean Cons in auto)
  qed
qed

lemma next_packet_trace:
  "next_packet d trace answers = Taken d' trace' rest
   \<Longrightarrow> trace' = trace \<or> trace' = trace @ [Flush_buffers]"
  by (auto simp: next_packet_def Let_def split: if_splits list.splits answer.splits
      option.splits)

lemma fetch_loop_trace:
  "Receive_frame AVERROR_EOF \<notin> set trace
   \<Longrightarrow> (case fetch_loop d trace answers of
         Fetch_done outcome d' trace' \<Rightarrow>
           outcome \<noteq> Return AVERROR_EOF \<and> Receive_frame AVERROR_EOF \<notin> set trace'
       | Fetched d' trace' rest \<Rightarrow> Receive_frame AVERROR_EOF \<notin> set trace')"
proof (induction d trace answers rule: fetch_loop.induct)
  case (1 d trace answers)
  note clean = "1.prems"
  note unfold = fetch_loop.simps [of d trace]
  show ?case
  proof (cases answers)
    case Nil
    with clean show ?thesis by (simp add: unfold)
  next
    case (Cons a answers1)
    show ?thesis
    proof (cases a)
      case (Packet_count n)
      define trace1 where "trace1 = (if n = 0 then trace @ [Signal_empty_queue] else trace)"
      have clean1: "Receive_frame AVERROR_EOF \<notin> set trace1"
        using clean by (simp add: trace1_def)
      show ?thesis
      proof (cases "next_packet d trace1 answers1")
        case No_packet
        with Cons Packet_count clean1 show ?thesis
          by (simp add: unfold trace1_def [symmetric])
      next
        case Aborted_queue
        with Cons Packet_count clean1 show ?thesis
          by (simp add: unfold trace1_def [symmetric] AVERROR_EOF_def)
      next
        case (Taken d1 trace2 answers2)
        from next_packet_trace [OF this] clean1
        have clean2: "Receive_frame AVERROR_EOF \<notin> set trace2" by auto
        show ?thesis
        proof (cases answers2)
          case Nil
          with Cons Packet_count Taken clean2 show ?thesis
            by (simp add: unfold trace1_def [symmetric])
        next
          case inner: (Cons b answers3)
          show ?thesis
          proof (cases b)
            case (Serial s)
            show ?thesis
            proof (cases "s = packet_serial d1")
              case True
              with Cons Packet_count Taken inner Serial clean2 show ?thesis
                by (simp add: unfold trace1_def [symmetric])
            next
              case False
              from "1.IH" [OF Cons Packet_count _ inner Serial False clean2] Taken
              have "case fetch_loop (d1\<lparr>packet := blank_packet\<rparr>) trace2 answers3 of
                  Fetch_done outcome d' trace' \<Rightarrow>
                    outcome \<noteq> Return AVERROR_EOF \<and> Receive_frame AVERROR_EOF \<notin> set trace'
                | Fetched d' trace' rest \<Rightarrow> Receive_frame AVERROR_EOF \<notin> set trace'"
                by (simp add: trace1_def)
              with Cons Packet_count Taken inner Serial False show ?thesis
                by (simp add: unfold trace1_def [symmetric])
            qed
          qed (use Cons Packet_count Taken inner clean2 in
              \<open>simp_all add: unfold trace1_def [symmetric]\<close>)
        qed
      qed
    qed (use Cons clean in \<open>simp_all add: unfold\<close>)
  qed
qed

lemma decode_loop_eof:
  "Receive_frame AVERROR_EOF \<notin> set trace
   \<Longrightarrow> decode_loop rs d frame ret trace answers = (outcome, d', frame', trace')
   \<Longrightarrow> outcome \<noteq> Return AVERROR_EOF
       \<and> (Receive_frame AVERROR_EOF \<in> set trace' \<longrightarrow>
            outcome = Return 0 \<and> finished d' = packet_serial d'
            \<and> (\<exists>before. trace' = before @ [Receive_frame AVERROR_EOF, Flush_buffers]))"
proof (induction rs d frame ret trace answers rule: decode_loop.induct)
  case (1 rs d frame ret trace answers)
  note clean = "1.prems"(1)
  note run = "1.prems"(2) [unfolded decode_loop.simps [of rs d frame ret trace answers]]
  show ?case
  proof (cases answers)
    case Nil
    with run clean show ?thesis by auto
  next
    case (Cons a answers1)
    show ?thesis
    proof (cases a)
      case (Serial s)
      define ph where "ph = (if s = packet_serial d
          then receive_loop rs d frame ret trace answers1
          else Next ret d frame trace answers1)"
      show ?thesis
      proof (cases ph)
        case (Done out0 d0 f0 trace0)
        then have "receive_loop rs d frame ret trace answers1 = Done out0 d0 f0 trace0"
          by (auto simp: ph_def split: if_splits)
        from receive_loop_Done [OF clean this] run Cons Serial Done show ?thesis
          by (simp add: ph_def [symmetric])
      next
        case (Next ret1 d1 frame1 trace1 answers2)
        have clean1: "Receive_frame AVERROR_EOF \<notin> set trace1"
          using Next clean receive_loop_Next [OF clean, of rs d frame ret answers1]
          by (auto simp: ph_def split: if_splits)
        note fetched = fetch_loop_trace [OF clean1, of d1 answers2]
        show ?thesis
        proof (cases "fetch_loop d1 trace1 answers2")
          case (Fetch_done out2 d2 trace2)
          with fetched run Cons Serial Next show ?thesis
            by (auto simp: ph_def [symmetric])
        next
          case (Fetched d2 trace2 answers3)
          with fetched have clean2: "Receive_frame AVERROR_EOF \<notin> set trace2" by simp
          show ?thesis
          proof (cases "attach_frame_data d2 answers3")
            case No_alloc_answer
            with run Cons Serial Next Fetched clean2 show ?thesis
              by (auto simp: ph_def [symmetric])
          next
            case Alloc_failed
            with run Cons Serial Next Fetched clean2 show ?thesis
              by (auto simp: ph_def [symmetric] AVERROR_def ENOMEM_def AVERROR_EOF_def)
          next
            case (Attached d3 answers4)
            show ?thesis
            proof (cases answers4)
              case Nil
              with run Cons Serial Next Fetched Attached clean2 show ?thesis
                by (auto simp: ph_def [symmetric])
            next
              case inner: (Cons b answers5)
              show ?thesis
              proof (cases b)
                case (Sent r)
                define d4 where "d4 = (if r = AVERROR EAGAIN then d3\<lparr>packet_pending := True\<rparr>
                    else d3\<lparr>packet := blank_packet\<rparr>)"
                from run Cons Serial Next Fetched Attached inner Sent
                have "decode_loop rs d4 frame1 ret1 (trace2 @ [Send_packet (packet d3) r])
                    answers5 = (outcome, d', frame', trace')"
                  by (simp add: ph_def [symmetric] d4_def)
                moreover have "Receive_frame AVERROR_EOF
                    \<notin> set (trace2 @ [Send_packet (packet d3) r])"
                  using clean2 by simp
                ultimately show ?thesis
                  using "1.IH" [OF Cons Serial Next [unfolded ph_def] Fetched Attached inner Sent]
                  by (simp add: d4_def)
              qed (use run Cons Serial Next Fetched Attached inner clean2 in
                  \<open>auto simp: ph_def [symmetric]\<close>)
            qed
          qed
        qed
      qed
    qed (use run Cons clean in auto)
  qed
qed

text \<open>
  Claim C8. In every run of \<^verbatim>\<open>ff_decoder_decode\<close>, whatever the codec and the packet
  queue answer: as soon as \<^verbatim>\<open>avcodec_receive_frame\<close> reports \<^verbatim>\<open>AVERROR_EOF\<close>, the call
  has returned 0, with \<open>finished\<close> equal to the decoder's \<open>packet_serial\<close> and with
  \<^verbatim>\<open>avcodec_flush_buffers\<close> as the last thing done to the codec, right after that
  receive. And no run returns \<^verbatim>\<open>AVERROR_EOF\<close>.
\<close>

theorem ff_decoder_decode_eof:
  assumes "ff_decoder_decode av_rescale_q decoder frame answers
             = (outcome, decoder', frame', trace)"
  shows "outcome \<noteq> Return AVERROR_EOF
     \<and> (Receive_frame AVERROR_EOF \<in> set trace \<longrightarrow>
          outcome = Return 0 \<and> finished decoder' = packet_serial decoder'
          \<and> (\<exists>before. trace = before @ [Receive_frame AVERROR_EOF, Flush_buffers]))"
  using assms decode_loop_eof [of "[]" av_rescale_q decoder frame "AVERROR EAGAIN" answers]
  by (simp add: ff_decoder_decode_def)

definition decoder0 :: ff_decoder where
  \<comment> \<open>a video decoder that has seen serial 1 and holds no packet\<close>
  "decoder0 =
     \<lparr>packet = blank_packet, codec_type = AVMEDIA_TYPE_VIDEO,
      pkt_timebase = \<lparr>num = 1, den = 1000\<rparr>, packet_serial = 1, finished = 0,
      packet_pending = False, start_pts = AV_NOPTS_VALUE,
      start_pts_time_base = \<lparr>num = 0, den = 1\<rparr>, next_pts = AV_NOPTS_VALUE,
      next_pts_tb = \<lparr>num = 0, den = 1\<rparr>, reorder_pts = True\<rparr>"

definition frame0 :: AVFrame where
  "frame0 = \<lparr>pts = AV_NOPTS_VALUE, best_effort_timestamp = AV_NOPTS_VALUE,
             pkt_dts = AV_NOPTS_VALUE, sample_rate = 0, nb_samples = 0\<rparr>"

definition answers0 :: "answer list" where
  \<comment> \<open>the codec wants input; the queue is empty and then delivers the null packet at serial
     1; the codec takes it and reports the end of the stream\<close>
  "answers0 =
     [Serial 1, Aborted False, Received (AVERROR EAGAIN) frame0,
      Packet_count 0, Got (Some (blank_packet, 1)), Serial 1,
      Sent 0,
      Serial 1, Aborted False, Received AVERROR_EOF frame0]"

lemma decode_answers0:
  "ff_decoder_decode (\<lambda>a b c. a) decoder0 frame0 answers0
     = (Return 0, decoder0\<lparr>finished := 1\<rparr>, frame0,
        [Receive_frame (AVERROR EAGAIN), Signal_empty_queue, Send_packet blank_packet 0,
         Receive_frame AVERROR_EOF, Flush_buffers])"
  by (simp add: ff_decoder_decode_def answers0_def decode_loop.simps receive_loop.simps
      fetch_loop.simps codec_receive_def next_packet_def attach_frame_data_def
      video_frame_pts_def decoder0_def blank_packet_def AVERROR_def EAGAIN_def AVERROR_EOF_def)

theorem ff_decoder_decode_eof_witness:
  "ff_decoder_decode (\<lambda>a b c. a) decoder0 frame0 answers0
     = (Return 0, decoder0\<lparr>finished := 1\<rparr>, frame0,
        [Receive_frame (AVERROR EAGAIN), Signal_empty_queue, Send_packet blank_packet 0,
         Receive_frame AVERROR_EOF, Flush_buffers])
   \<and> finished (decoder0\<lparr>finished := 1\<rparr>) = packet_serial (decoder0\<lparr>finished := 1\<rparr>)"
  using ff_decoder_decode_eof [OF decode_answers0] decode_answers0
  by simp

end
